theory Spec2Isabelle
  imports Complex_Main "HOL-Library.Char_ord" "HOL-Library.List_Lexorder"
begin

section \<open>Python primitives used by the updater\<close>

text \<open>
  The only exception the modelled code can raise deterministically is the \<open>ValueError\<close> of
  \<open>int(...)\<close> on a string that is not a decimal literal.
\<close>

datatype py_error = ValueError

text \<open>
  \<open>str.startswith\<close> and the slice \<open>s[1:]\<close>. Strings are byte strings here, so the model
  covers ASCII labels.
\<close>

definition startswith :: "string \<Rightarrow> string \<Rightarrow> bool" where
  "startswith s p = (take (length p) s = p)"

definition py_isspace :: "char \<Rightarrow> bool" where
  "py_isspace c = (let n = (of_char c :: nat) in (9 \<le> n \<and> n \<le> 13) \<or> n = 32)"

definition py_isdigit :: "char \<Rightarrow> bool" where
  "py_isdigit c = (let n = (of_char c :: nat) in 48 \<le> n \<and> n \<le> 57)"

definition digit_val :: "char \<Rightarrow> int" where
  "digit_val c = int (of_char c) - 48"

definition py_strip :: "string \<Rightarrow> string" where
  "py_strip s = rev (dropWhile py_isspace (rev (dropWhile py_isspace s)))"

text \<open>
  The digits of a decimal literal after its first digit: single underscores are allowed
  between digits, nowhere else.
\<close>

fun py_digits :: "string \<Rightarrow> int \<Rightarrow> int option" where
  "py_digits [] acc = Some acc"
| "py_digits (c # cs) acc =
     (if py_isdigit c then py_digits cs (10 * acc + digit_val c)
      else if c = CHR ''_'' then
        (case cs of
           [] \<Rightarrow> None
         | d # ds \<Rightarrow> if py_isdigit d then py_digits ds (10 * acc + digit_val d) else None)
      else None)"

text \<open>
  \<open>int(s)\<close> for an ASCII string: the blanks stripped at both ends are the characters 9 to 13
  and the space, one sign is allowed, and a literal of more than 4300 digits is refused (the
  interpreter's default limit).
\<close>

definition py_int :: "string \<Rightarrow> py_error + int" where
  "py_int s =
     (let t = py_strip s;
          neg = (case t of [] \<Rightarrow> False | c # _ \<Rightarrow> c = CHR ''-'');
          u = (case t of [] \<Rightarrow> [] | c # r \<Rightarrow> if c = CHR ''-'' \<or> c = CHR ''+'' then r else t)
      in case u of
           [] \<Rightarrow> Inl ValueError
         | c # r \<Rightarrow>
             if \<not> py_isdigit c \<or> length (filter py_isdigit u) > 4300 then Inl ValueError
             else (case py_digits r (digit_val c) of
                     None \<Rightarrow> Inl ValueError
                   | Some n \<Rightarrow> Inr (if neg then - n else n)))"

section \<open>Granularity catalog\<close>

text \<open>
  The native identifiers \<open>mt5.TIMEFRAME_*\<close> belong to the MetaTrader5 package; they are
  opaque tokens here.
\<close>

datatype mt5_timeframe =
    TIMEFRAME_M1 | TIMEFRAME_M2 | TIMEFRAME_M3 | TIMEFRAME_M4 | TIMEFRAME_M5 | TIMEFRAME_M6
  | TIMEFRAME_M10 | TIMEFRAME_M12 | TIMEFRAME_M15 | TIMEFRAME_M20 | TIMEFRAME_M30
  | TIMEFRAME_H1 | TIMEFRAME_H2 | TIMEFRAME_H3 | TIMEFRAME_H4 | TIMEFRAME_H6 | TIMEFRAME_H8
  | TIMEFRAME_H12 | TIMEFRAME_D1 | TIMEFRAME_W1 | TIMEFRAME_MN1

definition timeframe_dict :: "(string \<times> mt5_timeframe) list" where
  "timeframe_dict =
     [(''M1'', TIMEFRAME_M1), (''M2'', TIMEFRAME_M2), (''M3'', TIMEFRAME_M3),
      (''M4'', TIMEFRAME_M4), (''M5'', TIMEFRAME_M5), (''M6'', TIMEFRAME_M6),
      (''M10'', TIMEFRAME_M10), (''M12'', TIMEFRAME_M12), (''M15'', TIMEFRAME_M15),
      (''M20'', TIMEFRAME_M20), (''M30'', TIMEFRAME_M30), (''H1'', TIMEFRAME_H1),
      (''H2'', TIMEFRAME_H2), (''H3'', TIMEFRAME_H3), (''H4'', TIMEFRAME_H4),
      (''H6'', TIMEFRAME_H6), (''H8'', TIMEFRAME_H8), (''H12'', TIMEFRAME_H12),
      (''D1'', TIMEFRAME_D1), (''W1'', TIMEFRAME_W1), (''MN1'', TIMEFRAME_MN1)]"

definition get_timeframe_constant :: "string \<Rightarrow> mt5_timeframe option" where
  "get_timeframe_constant timeframe_str = map_of timeframe_dict timeframe_str"

text \<open>
  \<open>get_timeframe_seconds\<close>, branch by branch in the order of the source. The result is
  \<open>Inl ValueError\<close> where \<open>int(timeframe_str[1:])\<close> raises, \<open>Inr None\<close> where the function
  returns \<open>None\<close>.
\<close>

definition get_timeframe_seconds :: "string \<Rightarrow> py_error + int option" where
  "get_timeframe_seconds timeframe_str =
     (if startswith timeframe_str ''M'' then
        (case py_int (drop 1 timeframe_str) of
           Inl e \<Rightarrow> Inl e | Inr n \<Rightarrow> Inr (Some (n * 60)))
      else if startswith timeframe_str ''H'' then
        (case py_int (drop 1 timeframe_str) of
           Inl e \<Rightarrow> Inl e | Inr n \<Rightarrow> Inr (Some (n * 3600)))
      else if timeframe_str = ''D1'' then Inr (Some 86400)
      else if timeframe_str = ''W1'' then Inr (Some 604800)
      else if timeframe_str = ''MN1'' then Inr (Some 2592000)
      else Inr None)"

section \<open>Completion oracle\<close>

definition is_candle_complete :: "int \<Rightarrow> int \<Rightarrow> string \<Rightarrow> py_error + bool" where
  "is_candle_complete current_time candle_time timeframe_str =
     (case get_timeframe_seconds timeframe_str of
        Inl e \<Rightarrow> Inl e
      | Inr None \<Rightarrow> Inr True
      | Inr (Some timeframe_seconds) \<Rightarrow>
          (let candle_end_time = candle_time + timeframe_seconds
           in Inr (current_time \<ge> candle_end_time)))"

section \<open>Polling interval\<close>

text \<open>
  The loop of \<open>calculate_update_interval\<close>; \<open>min_interval\<close> starts at \<open>float('inf')\<close>,
  which is \<open>None\<close> here. The test \<open>seconds and seconds < min_interval\<close> skips \<open>None\<close> and \<open>0\<close>.
\<close>

fun min_interval_loop :: "string list \<Rightarrow> int option \<Rightarrow> py_error + int option" where
  "min_interval_loop [] min_interval = Inr min_interval"
| "min_interval_loop (tf_str # tfs) min_interval =
     (case get_timeframe_seconds tf_str of
        Inl e \<Rightarrow> Inl e
      | Inr seconds \<Rightarrow>
          min_interval_loop tfs
            (case seconds of
               None \<Rightarrow> min_interval
             | Some s \<Rightarrow>
                 if s \<noteq> 0 \<and> (case min_interval of None \<Rightarrow> True | Some m \<Rightarrow> s < m)
                 then Some s else min_interval))"

text \<open>
  The float \<open>0.05\<close> is only compared with integers and returned, so the rational \<open>1/20\<close>
  stands for it; \<open>//\<close> on Python integers is floor division, \<open>div\<close> on \<open>int\<close>.
\<close>

definition calculate_update_interval :: "string list \<Rightarrow> py_error + rat" where
  "calculate_update_interval timeframes =
     (case min_interval_loop timeframes None of
        Inl e \<Rightarrow> Inl e
      | Inr m \<Rightarrow>
          (let min_interval = (case m of None \<Rightarrow> 60 | Some s \<Rightarrow> s)
           in Inr (max (1 / 20) (of_int (min 60 (min_interval div 4))))))"

text \<open>
  The finest period of a list of labels, in the words of the interval policy: the least of
  the periods the catalog lookup resolves; and the clamp of the policy.
\<close>

definition resolved_periods :: "string list \<Rightarrow> int list" where
  "resolved_periods tfs =
     concat (map (\<lambda>l. case get_timeframe_seconds l of Inr (Some s) \<Rightarrow> [s] | _ \<Rightarrow> []) tfs)"

definition finest_period :: "string list \<Rightarrow> int" where
  "finest_period tfs = Min (set (resolved_periods tfs))"

definition clamp :: "rat \<Rightarrow> rat \<Rightarrow> rat \<Rightarrow> rat" where
  "clamp x lo hi = max lo (min hi x)"

text \<open>
  The periods of the catalog, label by label, as the specification gives them: minutes,
  hours, the day, the week and the month of thirty days.
\<close>

definition catalog_periods :: "(string \<times> int) list" where
  "catalog_periods =
     [(''M1'', 60), (''M2'', 120), (''M3'', 180), (''M4'', 240), (''M5'', 300), (''M6'', 360),
      (''M10'', 600), (''M12'', 720), (''M15'', 900), (''M20'', 1200), (''M30'', 1800),
      (''H1'', 3600), (''H2'', 7200), (''H3'', 10800), (''H4'', 14400), (''H6'', 21600),
      (''H8'', 28800), (''H12'', 43200), (''D1'', 86400), (''W1'', 604800),
      (''MN1'', 2592000)]"

fun opt_min :: "int option \<Rightarrow> int list \<Rightarrow> int option" where
  "opt_min m [] = m"
| "opt_min m (s # ss) = opt_min (case m of None \<Rightarrow> Some s | Some x \<Rightarrow> Some (min x s)) ss"

section \<open>The end of a scheduler cycle\<close>

text \<open>
  The last statements of the body of the main loop: \<open>sleep_time\<close> is computed (and only
  logged), and the process then sleeps for the literal passed to \<open>time.sleep\<close>. Durations
  are rationals; \<open>elapsed\<close> is the measured duration of the cycle.
\<close>

record cycle_end =
  sleep_time :: rat
  slept :: rat

definition end_of_cycle :: "rat \<Rightarrow> rat \<Rightarrow> cycle_end" where
  "end_of_cycle update_interval elapsed =
     \<lparr> sleep_time = max (1 / 20) (update_interval - elapsed), slept = 1 / 10 \<rparr>"

section \<open>Bars and the persisted table\<close>

text \<open>
  A fetched bar, one element of the array of \<open>copy_rates_from_pos\<close>. Prices are floats that
  the code only copies, so their type is a parameter. \<open>spread\<close> and \<open>real_volume\<close> are
  \<open>None\<close> where the column is missing or holds NaN.
\<close>

record 'p rate =
  rate_time :: int
  rate_open :: 'p
  rate_high :: 'p
  rate_low :: 'p
  rate_close :: 'p
  rate_tick_volume :: int
  rate_spread :: "int option"
  rate_real_volume :: "int option"

text \<open>
  One row of the table \<open>"{symbol}_{timeframe}"\<close>; \<open>is_completed\<close> is an SQL integer that
  may be NULL. A table is the list of its rows in insertion order.
\<close>

record 'p candle_row =
  row_id :: nat
  row_datetime :: string
  row_time :: int
  row_open :: 'p
  row_high :: 'p
  row_low :: 'p
  row_close :: 'p
  row_tick_volume :: int
  row_spread :: int
  row_real_volume :: int
  row_is_completed :: "int option"

type_synonym 'p candle_table = "'p candle_row list"

datatype sqlite_error = IntegrityError | OperationalError

definition or_zero :: "int option \<Rightarrow> int" where
  "or_zero v = (case v of None \<Rightarrow> 0 | Some n \<Rightarrow> n)"

text \<open>The value list of the INSERT statements; \<open>AUTOINCREMENT\<close> supplies the id.\<close>

definition next_id :: "'p candle_table \<Rightarrow> nat" where
  "next_id tbl = Suc (fold max (map row_id tbl) 0)"

definition new_row :: "nat \<Rightarrow> string \<Rightarrow> 'p rate \<Rightarrow> int option \<Rightarrow> 'p candle_row" where
  "new_row i datetime_str r is_completed =
     \<lparr> row_id = i, row_datetime = datetime_str, row_time = rate_time r,
       row_open = rate_open r, row_high = rate_high r, row_low = rate_low r,
       row_close = rate_close r, row_tick_volume = rate_tick_volume r,
       row_spread = or_zero (rate_spread r), row_real_volume = or_zero (rate_real_volume r),
       row_is_completed = is_completed \<rparr>"

text \<open>
  \<open>INSERT\<close>: the column \<open>datetime\<close> is \<open>UNIQUE\<close>, so inserting a key that is already stored
  fails with \<open>sqlite3.IntegrityError\<close> and leaves the table as it was.
\<close>

definition sql_insert ::
  "'p candle_table \<Rightarrow> string \<Rightarrow> 'p rate \<Rightarrow> int option \<Rightarrow> sqlite_error + 'p candle_table" where
  "sql_insert tbl datetime_str r is_completed =
     (if datetime_str \<in> set (map row_datetime tbl) then Inl IntegrityError
      else Inr (tbl @ [new_row (next_id tbl) datetime_str r is_completed]))"

text \<open>The SET list of the UPDATE statement, and \<open>UPDATE ... WHERE datetime = ?\<close>.\<close>

definition write_fields :: "'p candle_row \<Rightarrow> 'p rate \<Rightarrow> int \<Rightarrow> 'p candle_row" where
  "write_fields row r is_completed =
     row \<lparr> row_time := rate_time r, row_open := rate_open r, row_high := rate_high r,
           row_low := rate_low r, row_close := rate_close r,
           row_tick_volume := rate_tick_volume r, row_spread := or_zero (rate_spread r),
           row_real_volume := or_zero (rate_real_volume r),
           row_is_completed := Some is_completed \<rparr>"

definition sql_update :: "'p candle_table \<Rightarrow> string \<Rightarrow> 'p rate \<Rightarrow> int \<Rightarrow> 'p candle_table" where
  "sql_update tbl datetime_str r is_completed =
     map (\<lambda>row. if row_datetime row = datetime_str then write_fields row r is_completed else row) tbl"

text \<open>The row stored under a key, and the invariant the \<open>UNIQUE\<close> constraint maintains.\<close>

definition lookup :: "'p candle_table \<Rightarrow> string \<Rightarrow> 'p candle_row option" where
  "lookup tbl k = find (\<lambda>row. row_datetime row = k) tbl"

definition unique_keys :: "'p candle_table \<Rightarrow> bool" where
  "unique_keys tbl = distinct (map row_datetime tbl)"

section \<open>Reconciler\<close>

text \<open>
  The dictionary \<open>existing_candles\<close>, filled row by row from
  \<open>SELECT datetime, is_completed\<close>.
\<close>

definition existing_candles :: "'p candle_table \<Rightarrow> (string \<rightharpoonup> int option)" where
  "existing_candles tbl =
     fold (\<lambda>row m. m(row_datetime row \<mapsto> row_is_completed row)) tbl Map.empty"

text \<open>
  The column \<open>is_completed\<close> of the data frame: \<open>1\<close> or \<open>0\<close> per bar, or the exception of
  the oracle.
\<close>

fun completion_column :: "int \<Rightarrow> string \<Rightarrow> 'p rate list \<Rightarrow> py_error + int list" where
  "completion_column current_time timeframe_str [] = Inr []"
| "completion_column current_time timeframe_str (r # rs) =
     (case is_candle_complete current_time (rate_time r) timeframe_str of
        Inl e \<Rightarrow> Inl e
      | Inr b \<Rightarrow>
          (case completion_column current_time timeframe_str rs of
             Inl e \<Rightarrow> Inl e
           | Inr bs \<Rightarrow> Inr ((if b then 1 else 0) # bs)))"

text \<open>
  The body of the loop over the rows of the data frame. A row is the bar, its key
  \<open>datetime_str\<close> and its fresh flag. \<open>existing\<close> is the dictionary read before the loop;
  it is not refreshed. The result is the table and the increment of \<open>updated_count\<close>; a
  failed INSERT is logged and not counted.
\<close>

fun process_row ::
  "(string \<rightharpoonup> int option) \<Rightarrow> 'p rate \<times> string \<times> int \<Rightarrow> 'p candle_table
     \<Rightarrow> 'p candle_table \<times> nat" where
  "process_row existing (r, datetime_str, is_completed) tbl =
     (case existing datetime_str of
        Some persisted \<Rightarrow>
          if persisted = Some 0 \<or> persisted \<noteq> Some is_completed
          then (sql_update tbl datetime_str r is_completed, 1)
          else (tbl, 0)
      | None \<Rightarrow>
          (case sql_insert tbl datetime_str r (Some is_completed) of
             Inl err \<Rightarrow> (tbl, 0)
           | Inr tbl' \<Rightarrow> (tbl', 1)))"

fun process_candles ::
  "(string \<rightharpoonup> int option) \<Rightarrow> ('p rate \<times> string \<times> int) list \<Rightarrow> 'p candle_table \<Rightarrow> nat
     \<Rightarrow> nat \<times> 'p candle_table" where
  "process_candles existing [] tbl updated_count = (updated_count, tbl)"
| "process_candles existing (row # df) tbl updated_count =
     (case process_row existing row tbl of
        (tbl', k) \<Rightarrow> process_candles existing df tbl' (updated_count + k))"

text \<open>
  \<open>update_database\<close> for one series. \<open>fmt\<close> is the rendering
  \<open>pd.to_datetime(t, unit='s').strftime('%Y-%m-%d %H:%M:%S')\<close> of the pandas library, a
  parameter of the model; \<open>current_time\<close> is the clock read once per call; \<open>rates\<close> is what
  \<open>copy_rates_from_pos\<close> returned (\<open>None\<close> for no answer). The result is the exception that
  escapes, or the returned count with the table as it is after the call. The earlier exits
  (no connection, symbol not selected) return \<open>0\<close> like the exit on empty rates.
\<close>

definition make_frame ::
  "(int \<Rightarrow> string) \<Rightarrow> 'p rate list \<Rightarrow> int list \<Rightarrow> ('p rate \<times> string \<times> int) list" where
  "make_frame fmt rs flags = zip rs (zip (map (\<lambda>r. fmt (rate_time r)) rs) flags)"

definition update_database ::
  "(int \<Rightarrow> string) \<Rightarrow> int \<Rightarrow> string \<Rightarrow> 'p rate list option \<Rightarrow> 'p candle_table
     \<Rightarrow> py_error + nat \<times> 'p candle_table" where
  "update_database fmt current_time timeframe_str rates tbl =
     (case rates of
        None \<Rightarrow> Inr (0, tbl)
      | Some rs \<Rightarrow>
          if length rs = 0 then Inr (0, tbl)
          else (case completion_column current_time timeframe_str rs of
                  Inl e \<Rightarrow> Inl e
                | Inr flags \<Rightarrow>
                    Inr (process_candles (existing_candles tbl) (make_frame fmt rs flags) tbl 0)))"

definition bars_of :: "'p rate list option \<Rightarrow> 'p rate list" where
  "bars_of rates = (case rates of None \<Rightarrow> [] | Some rs \<Rightarrow> rs)"

text \<open>
  Successive cycles of one series: each cycle has its clock reading and its fetched window.
\<close>

fun run_cycles ::
  "(int \<Rightarrow> string) \<Rightarrow> string \<Rightarrow> (int \<times> 'p rate list option) list \<Rightarrow> 'p candle_table
     \<Rightarrow> py_error + 'p candle_table" where
  "run_cycles fmt timeframe_str [] tbl = Inr tbl"
| "run_cycles fmt timeframe_str ((current_time, rates) # cycles) tbl =
     (case update_database fmt current_time timeframe_str rates tbl of
        Inl e \<Rightarrow> Inl e
      | Inr (n, tbl') \<Rightarrow> run_cycles fmt timeframe_str cycles tbl')"

section \<open>One-shot bulk load\<close>

text \<open>
  The insertion loop of \<open>save_to_database\<close>, body first. Its INSERT names nine columns and leaves
  \<open>is_completed\<close> out, so a new row holds what the schema of the table gives that column:
  \<open>dflt\<close>, which is \<open>Some 1\<close> in a table created by the updater and \<open>None\<close> in a table
  created by the bulk loader (whose schema has no such column).
\<close>

fun insert_row ::
  "string set \<Rightarrow> int option \<Rightarrow> 'p rate \<times> string \<Rightarrow> 'p candle_table
     \<Rightarrow> 'p candle_table \<times> nat" where
  "insert_row existing_datetimes dflt (r, datetime_str) tbl =
     (if datetime_str \<notin> existing_datetimes then
        (case sql_insert tbl datetime_str r dflt of
           Inl err \<Rightarrow> (tbl, 0)
         | Inr tbl' \<Rightarrow> (tbl', 1))
      else (tbl, 0))"

fun insert_new_rows ::
  "string set \<Rightarrow> int option \<Rightarrow> ('p rate \<times> string) list \<Rightarrow> 'p candle_table \<Rightarrow> nat
     \<Rightarrow> nat \<times> 'p candle_table" where
  "insert_new_rows existing_datetimes dflt [] tbl inserted_rows = (inserted_rows, tbl)"
| "insert_new_rows existing_datetimes dflt (row # df) tbl inserted_rows =
     (case insert_row existing_datetimes dflt row tbl of
        (tbl', k) \<Rightarrow> insert_new_rows existing_datetimes dflt df tbl' (inserted_rows + k))"

text \<open>
  \<open>save_to_database\<close>: the result is the returned pair \<open>(total_rows, inserted_rows)\<close> and the
  table after the call. A table that does not exist yet is created empty, so it is the empty
  list here.
\<close>

definition save_to_database ::
  "(int \<Rightarrow> string) \<Rightarrow> int option \<Rightarrow> 'p rate list option \<Rightarrow> 'p candle_table
     \<Rightarrow> (nat \<times> nat) \<times> 'p candle_table" where
  "save_to_database fmt dflt data tbl =
     (case data of
        None \<Rightarrow> ((0, 0), tbl)
      | Some d \<Rightarrow>
          if length d = 0 then ((0, 0), tbl)
          else
            (let df = butlast (zip d (map (\<lambda>r. fmt (rate_time r)) d))
             in if df = [] then ((0, 0), tbl)
                else
                  (let total_rows = length df;
                       existing_datetimes = set (map row_datetime tbl);
                       (inserted_rows, tbl') = insert_new_rows existing_datetimes dflt df tbl 0
                   in ((total_rows, inserted_rows), tbl'))))"

text \<open>The bars of a list whose key is absent from a table.\<close>

definition absent_bars :: "(int \<Rightarrow> string) \<Rightarrow> 'p candle_table \<Rightarrow> 'p rate list \<Rightarrow> 'p rate list" where
  "absent_bars fmt tbl bars = filter (\<lambda>r. fmt (rate_time r) \<notin> set (map row_datetime tbl)) bars"

section \<open>The outcome of a bar, in the words of the reconciliation rule\<close>

text \<open>
  The flag the oracle computes for a bar opened at \<open>t\<close>, for a label resolved to \<open>g\<close>
  (\<open>None\<close> for an undetermined period, which counts as complete).
\<close>

definition fresh_flag :: "int \<Rightarrow> int option \<Rightarrow> int \<Rightarrow> int" where
  "fresh_flag current_time g t =
     (case g of None \<Rightarrow> 1 | Some G \<Rightarrow> if current_time \<ge> t + G then 1 else 0)"

text \<open>
  A bar is an insert when its key is absent from the persisted rows; an update when it is
  present and the persisted flag is false or differs from the fresh flag \<open>c\<close>.
\<close>

definition is_insert :: "'p candle_row option \<Rightarrow> bool" where
  "is_insert old = (old = None)"

definition is_update :: "'p candle_row option \<Rightarrow> int \<Rightarrow> bool" where
  "is_update old c =
     (case old of
        None \<Rightarrow> False
      | Some row \<Rightarrow> row_is_completed row = Some 0 \<or> row_is_completed row \<noteq> Some c)"

text \<open>
  What is stored under the key \<open>k\<close> of a bar after the call, given what was stored before:
  a new row with every field of the bar, the old row with every field overwritten, or the
  old row as it was.
\<close>

definition bar_outcome ::
  "'p candle_row option \<Rightarrow> 'p candle_row option \<Rightarrow> string \<Rightarrow> 'p rate \<Rightarrow> int \<Rightarrow> bool" where
  "bar_outcome old new k r c =
     (case old of
        None \<Rightarrow>
          (case new of
             None \<Rightarrow> False
           | Some row' \<Rightarrow> row' = new_row (row_id row') k r (Some c))
      | Some row \<Rightarrow>
          if is_update old c then new = Some (write_fields row r c) else new = Some row)"

text \<open>The invariant of the writers: each row is stored under the rendering of its time.\<close>

definition keyed :: "(int \<Rightarrow> string) \<Rightarrow> 'p candle_table \<Rightarrow> bool" where
  "keyed fmt tbl = (unique_keys tbl \<and> list_all (\<lambda>row. row_datetime row = fmt (row_time row)) tbl)"

section \<open>Read API: the \<open>/ohlc\<close> endpoint\<close>

datatype http_error = Http404 | Http422 | Http500

record 'p ohlc =
  ohlc_symbol :: string
  ohlc_timeframe :: string
  ohlc_t :: "int list"
  ohlc_o :: "'p list"
  ohlc_h :: "'p list"
  ohlc_l :: "'p list"
  ohlc_c :: "'p list"
  ohlc_v :: "int list"

text \<open>
  The WHERE clause: a filter is added for a non-empty \<open>start_time\<close>, a non-empty
  \<open>end_time\<close> and for \<open>completed_only\<close>. Text is compared bytewise.
\<close>

definition ohlc_where ::
  "string option \<Rightarrow> string option \<Rightarrow> bool \<Rightarrow> 'p candle_row \<Rightarrow> bool" where
  "ohlc_where start_time end_time completed_only row =
     ((case start_time of
         None \<Rightarrow> True
       | Some s \<Rightarrow> s = [] \<or> row_datetime row \<ge> s)
      \<and> (case end_time of
            None \<Rightarrow> True
          | Some e \<Rightarrow> e = [] \<or> row_datetime row \<le> e)
      \<and> (completed_only \<longrightarrow> row_is_completed row = Some 1))"

text \<open>
  \<open>ORDER BY time DESC LIMIT ?\<close>; a negative limit is no limit. The order among rows of equal
  \<open>time\<close> is not fixed by SQL; here it is the reverse of a stable ascending sort.
\<close>

definition ohlc_query ::
  "string option \<Rightarrow> string option \<Rightarrow> int \<Rightarrow> bool \<Rightarrow> 'p candle_table \<Rightarrow> 'p candle_row list" where
  "ohlc_query start_time end_time limit completed_only tbl =
     (let matching = filter (ohlc_where start_time end_time completed_only) tbl;
          ordered = rev (sort_key row_time matching)
      in if limit < 0 then ordered else take (nat limit) ordered)"

text \<open>
  \<open>get_ohlc_data\<close>. The parameter \<open>limit\<close> is declared with \<open>le=100000\<close>, so a greater
  value is refused with status 422 before the body runs. \<open>db\<close> is what the database
  answers: \<open>Inl\<close> when the connection or a statement raises \<open>sqlite3.Error\<close> (status 500),
  \<open>Inr None\<close> when the table does not exist, \<open>Inr (Some tbl)\<close> otherwise. The six lists
  are filled in the order of the rows and then reversed.
\<close>

definition get_ohlc_data ::
  "string \<Rightarrow> string \<Rightarrow> string option \<Rightarrow> string option \<Rightarrow> int \<Rightarrow> bool
     \<Rightarrow> sqlite_error + 'p candle_table option \<Rightarrow> http_error + 'p ohlc" where
  "get_ohlc_data symbol timeframe start_time end_time limit completed_only db =
     (if limit > 100000 then Inl Http422
      else
        (case db of
           Inl e \<Rightarrow> Inl Http500
         | Inr None \<Rightarrow> Inl Http404
         | Inr (Some tbl) \<Rightarrow>
             (let rows = ohlc_query start_time end_time limit completed_only tbl
              in if rows = [] then Inl Http404
                 else Inr \<lparr> ohlc_symbol = symbol, ohlc_timeframe = timeframe,
                            ohlc_t = rev (map (\<lambda>row. row_time row * 1000) rows),
                            ohlc_o = rev (map row_open rows),
                            ohlc_h = rev (map row_high rows),
                            ohlc_l = rev (map row_low rows),
                            ohlc_c = rev (map row_close rows),
                            ohlc_v = rev (map row_tick_volume rows) \<rparr>)))"

section \<open>A concrete rendering of timestamps\<close>

text \<open>
  The text \<open>YYYY-MM-DD HH:MM:SS\<close> of a Unix time in UTC, by the usual conversion of a day
  count to a civil date. It instantiates the parameter \<open>fmt\<close> in the examples.
\<close>

definition digit_char :: "int \<Rightarrow> char" where
  "digit_char n = char_of (48 + nat n)"

definition pad2 :: "int \<Rightarrow> string" where
  "pad2 n = [digit_char (n div 10 mod 10), digit_char (n mod 10)]"

definition pad4 :: "int \<Rightarrow> string" where
  "pad4 n = pad2 (n div 100) @ pad2 (n mod 100)"

definition civil_from_days :: "int \<Rightarrow> int \<times> int \<times> int" where
  "civil_from_days days =
     (let z = days + 719468;
          era = z div 146097;
          doe = z - era * 146097;
          yoe = (doe - doe div 1460 + doe div 36524 - doe div 146096) div 365;
          doy = doe - (365 * yoe + yoe div 4 - yoe div 100);
          mp = (5 * doy + 2) div 153;
          d = doy - (153 * mp + 2) div 5 + 1;
          m = (if mp < 10 then mp + 3 else mp - 9);
          y = yoe + era * 400 + (if m \<le> 2 then 1 else 0)
      in (y, m, d))"

definition datetime_str :: "int \<Rightarrow> string" where
  "datetime_str t =
     (let (y, m, d) = civil_from_days (t div 86400);
          s = t mod 86400
      in pad4 y @ ''-'' @ pad2 m @ ''-'' @ pad2 d @ '' '' @
         pad2 (s div 3600) @ '':'' @ pad2 (s div 60 mod 60) @ '':'' @ pad2 (s mod 60))"

section \<open>The scenario of three cycles\<close>

definition bar :: "int \<Rightarrow> rat \<Rightarrow> rat rate" where
  "bar t c = \<lparr> rate_time = t, rate_open = c, rate_high = c, rate_low = c, rate_close = c,
               rate_tick_volume = 1, rate_spread = Some 0, rate_real_volume = Some 0 \<rparr>"

definition window1 :: "rat rate list" where
  "window1 = [bar 100 (11 / 10), bar 160 (12 / 10)]"

definition window2 :: "rat rate list" where
  "window2 = [bar 160 (125 / 100), bar 220 (13 / 10)]"

definition stored :: "nat \<Rightarrow> int \<Rightarrow> rat \<Rightarrow> int \<Rightarrow> rat candle_row" where
  "stored i t c f = new_row i (datetime_str t) (bar t c) (Some f)"

definition table_after_cycle1 :: "rat candle_table" where
  "table_after_cycle1 = [stored 1 100 (11 / 10) 1, stored 2 160 (12 / 10) 0]"

definition table_after_cycle2 :: "rat candle_table" where
  "table_after_cycle2 =
     [stored 1 100 (11 / 10) 1, stored 2 160 (125 / 100) 1, stored 3 220 (13 / 10) 0]"

text \<open>A fetch of fifty one-minute bars.\<close>

definition fifty_bars :: "rat rate list" where
  "fifty_bars = map (\<lambda>i. bar (60 * int i) 1) [0..<50]"

section \<open>Properties of the catalog, the oracle and the interval\<close>

lemma secs_M1: "get_timeframe_seconds ''M1'' = Inr (Some 60)"
  by code_simp

lemma secs_M5: "get_timeframe_seconds ''M5'' = Inr (Some 300)"
  by code_simp

lemma secs_H1: "get_timeframe_seconds ''H1'' = Inr (Some 3600)"
  by code_simp

text \<open>
  Every label of the catalog but \<open>MN1\<close> resolves to its period. Outside the catalog, a
  label that starts with \<open>M\<close> or \<open>H\<close> is parsed (or \<open>int\<close> raises); a label that starts with
  neither and is not \<open>D1\<close> or \<open>W1\<close> resolves to \<open>None\<close>. The lookup of the native identifier
  never raises.
\<close>

lemma catalog_seconds:
  "map get_timeframe_seconds
     [''M1'', ''M2'', ''M3'', ''M4'', ''M5'', ''M6'', ''M10'', ''M12'', ''M15'', ''M20'', ''M30'',
      ''H1'', ''H2'', ''H3'', ''H4'', ''H6'', ''H8'', ''H12'', ''D1'', ''W1'']
   = map (\<lambda>s. Inr (Some s))
     [60, 120, 180, 240, 300, 360, 600, 720, 900, 1200, 1800,
      3600, 7200, 10800, 14400, 21600, 28800, 43200, 86400, 604800]"
  by code_simp

lemma seconds_outside_catalog:
  "get_timeframe_seconds ''M7'' = Inr (Some 420)
   \<and> get_timeframe_seconds ''Mx'' = Inl ValueError
   \<and> get_timeframe_seconds ''X1'' = Inr None"
  by code_simp

lemma seconds_unknown_prefix:
  "\<not> startswith l ''M'' \<Longrightarrow> \<not> startswith l ''H'' \<Longrightarrow> l \<noteq> ''D1'' \<Longrightarrow> l \<noteq> ''W1''
     \<Longrightarrow> get_timeframe_seconds l = Inr None"
  by (auto simp: get_timeframe_seconds_def startswith_def)

lemma constant_outside_catalog:
  "l \<notin> set (map fst timeframe_dict) \<Longrightarrow> get_timeframe_constant l = None"
  by (simp add: get_timeframe_constant_def map_of_eq_None_iff)

text \<open>
  C6. The catalog lookup of the period is not total on the catalog: \<open>MN1\<close> is a label of
  the catalog (its native identifier is found), but it starts with \<open>M\<close>, so the first branch
  of \<open>get_timeframe_seconds\<close> takes it and \<open>int('N1')\<close> raises \<open>ValueError\<close>; the branch
  that returns 2592000 is never reached.
\<close>

theorem get_timeframe_seconds_MN1_raises:
  "get_timeframe_constant ''MN1'' = Some TIMEFRAME_MN1
   \<and> get_timeframe_seconds ''MN1'' = Inl ValueError"
  by code_simp

lemma secs_MN1: "get_timeframe_seconds ''MN1'' = Inl ValueError"
  by code_simp

lemma int_keeps_separator: "py_int [CHR 0x1F, CHR ''5''] = Inl ValueError"
  by code_simp

text \<open>
  Where the lookup resolves a label to \<open>G\<close> seconds the oracle is the comparison
  \<open>R \<ge> T + G\<close>, the boundary included; this is so for every label of the catalog but
  \<open>MN1\<close>.
\<close>

lemma oracle_resolved:
  assumes "get_timeframe_seconds l = Inr (Some G)"
  shows "is_candle_complete R T l = Inr (R \<ge> T + G)"
  using assms by (simp add: is_candle_complete_def)

lemma oracle_boundary:
  "is_candle_complete 160 100 ''M1'' = Inr True \<and> is_candle_complete 159 100 ''M1'' = Inr False"
  by (simp add: oracle_resolved [OF secs_M1])

lemma catalog_resolved:
  "(l, G) \<in> set catalog_periods \<Longrightarrow> l \<noteq> ''MN1'' \<Longrightarrow> get_timeframe_seconds l = Inr (Some G)"
  using catalog_seconds by (auto simp: catalog_periods_def)

lemma oracle_on_catalog:
  "(l, G) \<in> set catalog_periods \<Longrightarrow> l \<noteq> ''MN1''
     \<Longrightarrow> is_candle_complete R T l = Inr (R \<ge> T + G)"
  by (rule oracle_resolved) (rule catalog_resolved)

text \<open>
  C3. The oracle does not return \<open>R \<ge> T + G\<close> for every label of the catalog: for \<open>MN1\<close>,
  whose period is 2592000 seconds, the lookup of the period raises, so the oracle raises
  \<open>ValueError\<close> for every open time \<open>T\<close> and every reference time \<open>R\<close>.
\<close>

theorem is_candle_complete_MN1_raises:
  "map_of catalog_periods ''MN1'' = Some 2592000
   \<and> get_timeframe_constant ''MN1'' = Some TIMEFRAME_MN1
   \<and> is_candle_complete R T ''MN1'' = Inl ValueError"
proof -
  have "map_of catalog_periods ''MN1'' = Some 2592000"
    and "get_timeframe_constant ''MN1'' = Some TIMEFRAME_MN1"
    by code_simp+
  then show ?thesis by (simp add: is_candle_complete_def secs_MN1)
qed

lemma seconds_dvd4: "get_timeframe_seconds l = Inr (Some s) \<Longrightarrow> 4 dvd s"
  by (auto simp: get_timeframe_seconds_def split: if_splits sum.splits)

lemma opt_min_Some: "opt_min (Some x) ss = Some (Min (insert x (set ss)))"
proof (induction ss arbitrary: x)
  case Nil
  show ?case by simp
next
  case (Cons s ss)
  have "Min (insert (min x s) (set ss)) = Min (insert x (insert s (set ss)))"
    by (cases "set ss = {}") (simp_all add: min.assoc)
  then show ?case using Cons by simp
qed

lemma opt_min_None: "ss \<noteq> [] \<Longrightarrow> opt_min None ss = Some (Min (set ss))"
  by (cases ss) (simp_all add: opt_min_Some)

lemma resolved_periods_Cons:
  "resolved_periods (l # tfs) =
     (case get_timeframe_seconds l of Inr (Some s) \<Rightarrow> [s] | _ \<Rightarrow> []) @ resolved_periods tfs"
  by (simp add: resolved_periods_def)

lemma loop_opt_min:
  assumes "\<forall>l\<in>set tfs. get_timeframe_seconds l \<noteq> Inl ValueError"
      and "0 \<notin> set (resolved_periods tfs)"
  shows "min_interval_loop tfs m = Inr (opt_min m (resolved_periods tfs))"
  using assms
proof (induction tfs arbitrary: m)
  case Nil
  show ?case by (simp add: resolved_periods_def)
next
  case (Cons l tfs)
  from Cons.prems obtain r where r: "get_timeframe_seconds l = Inr r"
    by (cases "get_timeframe_seconds l") (auto intro: py_error.exhaust)
  have tl: "\<forall>l\<in>set tfs. get_timeframe_seconds l \<noteq> Inl ValueError"
    "0 \<notin> set (resolved_periods tfs)"
    using Cons.prems by (auto simp: resolved_periods_Cons)
  show ?case
  proof (cases r)
    case None
    then show ?thesis using r Cons.IH [OF tl] by (simp add: resolved_periods_Cons)
  next
    case (Some s)
    then have "s \<noteq> 0" using Cons.prems(2) r by (auto simp: resolved_periods_Cons)
    then show ?thesis using r Some Cons.IH [OF tl]
      by (cases m) (auto simp: resolved_periods_Cons min_def)
  qed
qed

lemma periods_dvd4: "s \<in> set (resolved_periods tfs) \<Longrightarrow> 4 dvd s"
  by (auto simp: resolved_periods_def seconds_dvd4 split: sum.splits option.splits)

text \<open>
  For labels that the lookup resolves (none raises, none has period 0) with finest period
  \<open>F\<close>, the interval is returned, lies between 0.05 and 60 and is the clamp of \<open>F / 4\<close>: the
  floor division of the code is exact because every period is a multiple of 4.
\<close>

lemma interval_clamp_resolved:
  assumes "\<forall>l\<in>set tfs. get_timeframe_seconds l \<noteq> Inl ValueError"
      and "resolved_periods tfs \<noteq> []"
      and "0 \<notin> set (resolved_periods tfs)"
      and "F = finest_period tfs"
  shows "\<exists>I. calculate_update_interval tfs = Inr I \<and> 1 / 20 \<le> I \<and> I \<le> 60
           \<and> I = clamp (of_int F / 4) (1 / 20) 60
           \<and> I = max (1 / 20) (min 60 (of_int F / 4))"
proof -
  have loop: "min_interval_loop tfs None = Inr (Some F)"
    using loop_opt_min [OF assms(1) assms(3)] assms(2,4)
    by (simp add: opt_min_None finest_period_def)
  have "F \<in> set (resolved_periods tfs)"
    using assms(2,4) by (simp add: finest_period_def Min_in)
  then have "4 dvd F" by (rule periods_dvd4)
  then obtain k where k: "F = 4 * k" by (auto simp: dvd_def)
  have q: "(of_int (min 60 (F div 4)) :: rat) = min 60 (of_int F / 4)"
    using k by (simp add: min_def)
  show ?thesis
    using loop q by (simp add: calculate_update_interval_def clamp_def)
qed

lemma interval_clamp_example:
  "map get_timeframe_seconds [''M5'', ''H1'', ''M1'']
     = [Inr (Some 300), Inr (Some 3600), Inr (Some 60)]
   \<and> resolved_periods [''M5'', ''H1'', ''M1''] = [300, 3600, 60]
   \<and> finest_period [''M5'', ''H1'', ''M1''] = 60
   \<and> calculate_update_interval [''M5'', ''H1'', ''M1''] = Inr 15"
proof -
  have p: "resolved_periods [''M5'', ''H1'', ''M1''] = [300, 3600, 60]"
    by (simp add: resolved_periods_def secs_M1 secs_M5 secs_H1)
  have f: "finest_period [''M5'', ''H1'', ''M1''] = 60"
    by (simp add: finest_period_def p)
  have h1: "\<forall>l\<in>set [''M5'', ''H1'', ''M1'']. get_timeframe_seconds l \<noteq> Inl ValueError"
    by (simp add: secs_M1 secs_M5 secs_H1)
  have h2: "resolved_periods [''M5'', ''H1'', ''M1''] \<noteq> []" by (simp add: p)
  have h3: "0 \<notin> set (resolved_periods [''M5'', ''H1'', ''M1''])" by (simp add: p)
  from interval_clamp_resolved [OF h1 h2 h3 f [symmetric]]
  obtain I where "calculate_update_interval [''M5'', ''H1'', ''M1''] = Inr I"
    and "I = max (1 / 20) (min 60 (of_int 60 / 4))" by blast
  then have "calculate_update_interval [''M5'', ''H1'', ''M1''] = Inr 15" by simp
  then show ?thesis using p f by (simp add: secs_M1 secs_M5 secs_H1)
qed

text \<open>
  C4. The interval is not the clamp of a quarter of the finest period for every set of
  labels of the catalog: for the labels \<open>M1\<close> and \<open>MN1\<close> the finest period is 60 seconds and
  the clamp is 15, but the lookup of the period of \<open>MN1\<close> raises and
  \<open>calculate_update_interval\<close> raises \<open>ValueError\<close>; so it does for \<open>MN1\<close> alone.
\<close>

theorem calculate_update_interval_MN1_raises:
  "map get_timeframe_constant [''M1'', ''MN1''] = [Some TIMEFRAME_M1, Some TIMEFRAME_MN1]
   \<and> map (map_of catalog_periods) [''M1'', ''MN1''] = [Some 60, Some 2592000]
   \<and> clamp (60 / 4) (1 / 20) 60 = 15
   \<and> calculate_update_interval [''M1'', ''MN1''] = Inl ValueError
   \<and> calculate_update_interval [''MN1''] = Inl ValueError"
proof -
  have "map get_timeframe_constant [''M1'', ''MN1''] = [Some TIMEFRAME_M1, Some TIMEFRAME_MN1]"
    by code_simp
  moreover have "map (map_of catalog_periods) [''M1'', ''MN1''] = [Some 60, Some 2592000]"
    by code_simp
  moreover have "clamp (60 / 4) (1 / 20) 60 = 15"
    by (simp add: clamp_def)
  moreover have "calculate_update_interval [''M1'', ''MN1''] = Inl ValueError"
    and "calculate_update_interval [''MN1''] = Inl ValueError"
    by (simp_all add: calculate_update_interval_def secs_M1 secs_MN1)
  ultimately show ?thesis by (intro conjI)
qed

text \<open>
  C5. At the end of a cycle the code computes
  \<open>max(0.05, update_interval - elapsed)\<close> but sleeps for the constant 0.1 seconds: with an
  interval of 15 seconds and a cycle that took 1 second it sleeps 0.1 seconds, not 14.
\<close>

theorem end_of_cycle_sleeps_constant:
  "slept (end_of_cycle 15 1) = 1 / 10 \<and> sleep_time (end_of_cycle 15 1) = 14"
  by (simp add: end_of_cycle_def)

section \<open>Properties of the table operations\<close>

lemma lookup_Nil [simp]: "lookup [] k = None"
  by (simp add: lookup_def)

lemma lookup_Cons [simp]:
  "lookup (row # tbl) k = (if row_datetime row = k then Some row else lookup tbl k)"
  by (simp add: lookup_def)

lemma lookup_None_iff: "lookup tbl k = None \<longleftrightarrow> k \<notin> set (map row_datetime tbl)"
  by (induction tbl) auto

lemma lookup_key: "lookup tbl k = Some row \<Longrightarrow> row_datetime row = k \<and> row \<in> set tbl"
  by (induction tbl) (auto split: if_splits)

lemma lookup_snoc:
  "lookup (tbl @ [row]) k =
     (case lookup tbl k of
        Some x \<Rightarrow> Some x
      | None \<Rightarrow> if row_datetime row = k then Some row else None)"
  by (induction tbl) auto

lemma datetime_write_fields [simp]: "row_datetime (write_fields row r c) = row_datetime row"
  by (simp add: write_fields_def)

lemma keys_sql_update [simp]:
  "map row_datetime (sql_update tbl k r c) = map row_datetime tbl"
  by (induction tbl) (auto simp: sql_update_def)

lemma lookup_sql_update:
  "lookup (sql_update tbl k r c) k' =
     (if k' = k then map_option (\<lambda>row. write_fields row r c) (lookup tbl k') else lookup tbl k')"
  by (induction tbl) (auto simp: sql_update_def)

lemma fold_existing:
  "distinct (map row_datetime tbl) \<Longrightarrow>
   fold (\<lambda>row m. m(row_datetime row \<mapsto> row_is_completed row)) tbl m k =
     (case lookup tbl k of None \<Rightarrow> m k | Some row \<Rightarrow> Some (row_is_completed row))"
proof (induction tbl arbitrary: m)
  case Nil
  show ?case by simp
next
  case (Cons row tbl)
  have d: "distinct (map row_datetime tbl)" and n: "lookup tbl (row_datetime row) = None"
    using Cons.prems by (simp_all add: lookup_None_iff)
  show ?case
  proof (cases "row_datetime row = k")
    case True
    then show ?thesis using Cons.IH [OF d] n by simp
  next
    case False
    then show ?thesis using Cons.IH [OF d] by (simp split: option.splits)
  qed
qed

lemma existing_candles_lookup:
  "unique_keys tbl \<Longrightarrow> existing_candles tbl k = map_option row_is_completed (lookup tbl k)"
  by (simp add: existing_candles_def unique_keys_def fold_existing split: option.splits)

lemma completion_column_flags:
  "get_timeframe_seconds tf = Inr g \<Longrightarrow>
   completion_column now tf rs = Inr (map (\<lambda>r. fresh_flag now g (rate_time r)) rs)"
  by (induction rs) (auto simp: is_candle_complete_def fresh_flag_def split: option.splits)

lemma datetime_new_row [simp]: "row_datetime (new_row i k r c) = k"
  by (simp add: new_row_def)

lemma unique_keys_process_row:
  "unique_keys tbl \<Longrightarrow> unique_keys (fst (process_row existing x tbl))"
  by (cases x) (auto simp: unique_keys_def sql_insert_def split: option.splits)

lemma lookup_process_row_other:
  "k' \<noteq> k \<Longrightarrow> lookup (fst (process_row existing (r, k, c) tbl)) k' = lookup tbl k'"
  by (auto simp: sql_insert_def lookup_sql_update lookup_snoc new_row_def split: option.splits)

lemma process_row_outcome:
  assumes "existing k = map_option row_is_completed (lookup tbl k)"
  shows "bar_outcome (lookup tbl k) (lookup (fst (process_row existing (r, k, c) tbl)) k) k r c
         \<and> snd (process_row existing (r, k, c) tbl)
             = (if is_insert (lookup tbl k) \<or> is_update (lookup tbl k) c then 1 else 0)"
proof (cases "lookup tbl k")
  case None
  then have "k \<notin> set (map row_datetime tbl)" by (simp add: lookup_None_iff)
  then show ?thesis using None assms
    by (simp add: sql_insert_def lookup_snoc bar_outcome_def is_insert_def new_row_def)
next
  case (Some row)
  then show ?thesis using assms
    by (auto simp: lookup_sql_update bar_outcome_def is_insert_def is_update_def)
qed

declare process_row.simps [simp del]

lemma process_candles_spec:
  assumes "unique_keys cur"
      and "distinct (map (\<lambda>(r, k, c). k) df)"
      and "\<forall>(r, k, c)\<in>set df. existing k = map_option row_is_completed (lookup cur k)"
  shows "fst (process_candles existing df cur n)
           = n + length (filter (\<lambda>(r, k, c). is_insert (lookup cur k) \<or> is_update (lookup cur k) c) df)
         \<and> unique_keys (snd (process_candles existing df cur n))
         \<and> (\<forall>k. k \<notin> set (map (\<lambda>(r, k, c). k) df)
               \<longrightarrow> lookup (snd (process_candles existing df cur n)) k = lookup cur k)
         \<and> (\<forall>(r, k, c)\<in>set df.
               bar_outcome (lookup cur k) (lookup (snd (process_candles existing df cur n)) k) k r c)"
  using assms
proof (induction df arbitrary: cur n)
  case Nil
  then show ?case by simp
next
  case (Cons x df)
  obtain r k c where x: "x = (r, k, c)" by (cases x) auto
  define cur1 where "cur1 = fst (process_row existing (r, k, c) cur)"
  define j where "j = snd (process_row existing (r, k, c) cur)"
  have pr: "process_row existing (r, k, c) cur = (cur1, j)"
    by (simp add: cur1_def j_def)
  have fresh: "k \<notin> set (map (\<lambda>(r, k, c). k) df)"
    and dist: "distinct (map (\<lambda>(r, k, c). k) df)"
    using Cons.prems(2) x by simp_all
  have other: "lookup cur1 k' = lookup cur k'" if "(r', k', c') \<in> set df" for r' k' c'
  proof -
    have "k' \<noteq> k" using that fresh by force
    then show ?thesis unfolding cur1_def by (rule lookup_process_row_other)
  qed
  have u1: "unique_keys cur1"
    using unique_keys_process_row [OF Cons.prems(1), of existing "(r, k, c)"]
    by (simp add: cur1_def)
  have ex1: "\<forall>(r, k, c)\<in>set df. existing k = map_option row_is_completed (lookup cur1 k)"
    using Cons.prems(3) other by fastforce
  have exk: "existing k = map_option row_is_completed (lookup cur k)"
    using Cons.prems(3) x by simp
  have step: "bar_outcome (lookup cur k) (lookup cur1 k) k r c
      \<and> j = (if is_insert (lookup cur k) \<or> is_update (lookup cur k) c then 1 else 0)"
    using process_row_outcome [of existing k cur r c] exk by (simp add: cur1_def j_def)
  note IH = Cons.IH [OF u1 dist ex1, of "n + j"]
  have unfold: "process_candles existing ((r, k, c) # df) cur n = process_candles existing df cur1 (n + j)"
    by (simp add: pr)
  have cnt: "filter (\<lambda>(r, k, c). is_insert (lookup cur1 k) \<or> is_update (lookup cur1 k) c) df
           = filter (\<lambda>(r, k, c). is_insert (lookup cur k) \<or> is_update (lookup cur k) c) df"
    by (rule filter_cong) (auto simp: other)
  have c1: "fst (process_candles existing ((r, k, c) # df) cur n)
      = n + length (filter (\<lambda>(r, k, c). is_insert (lookup cur k) \<or> is_update (lookup cur k) c) ((r, k, c) # df))"
    unfolding unfold using IH step cnt by simp
  have c2: "unique_keys (snd (process_candles existing ((r, k, c) # df) cur n))"
    unfolding unfold using IH by simp
  have c3: "\<forall>k'. k' \<notin> set (map (\<lambda>(r, k, c). k) ((r, k, c) # df))
               \<longrightarrow> lookup (snd (process_candles existing ((r, k, c) # df) cur n)) k' = lookup cur k'"
  proof (intro allI impI)
    fix k' assume a: "k' \<notin> set (map (\<lambda>(r, k, c). k) ((r, k, c) # df))"
    then have "k' \<noteq> k" and "k' \<notin> set (map (\<lambda>(r, k, c). k) df)" by simp_all
    then show "lookup (snd (process_candles existing ((r, k, c) # df) cur n)) k' = lookup cur k'"
      unfolding unfold using IH lookup_process_row_other [of k' k existing r c cur]
      by (simp add: cur1_def)
  qed
  have kfin: "lookup (snd (process_candles existing ((r, k, c) # df) cur n)) k = lookup cur1 k"
    unfolding unfold using IH fresh by simp
  have c4: "\<forall>(r', k', c')\<in>set ((r, k, c) # df).
               bar_outcome (lookup cur k')
                 (lookup (snd (process_candles existing ((r, k, c) # df) cur n)) k') k' r' c'"
  proof -
    have "bar_outcome (lookup cur k) (lookup (snd (process_candles existing ((r, k, c) # df) cur n)) k) k r c"
      using step kfin by simp
    moreover have "bar_outcome (lookup cur k')
        (lookup (snd (process_candles existing ((r, k, c) # df) cur n)) k') k' r' c'"
      if m: "(r', k', c') \<in> set df" for r' k' c'
    proof -
      from IH have "\<forall>(r, k, c)\<in>set df.
          bar_outcome (lookup cur1 k) (lookup (snd (process_candles existing df cur1 (n + j))) k) k r c"
        by (elim conjE)
      with m have "bar_outcome (lookup cur1 k')
          (lookup (snd (process_candles existing df cur1 (n + j))) k') k' r' c'"
        by (auto simp only: split_conv dest!: bspec)
      then show ?thesis unfolding unfold using other [OF m] by simp
    qed
    ultimately show ?thesis by auto
  qed
  from c1 c2 c3 c4 show ?case unfolding x by (intro conjI)
qed

lemma make_frame_map:
  "make_frame fmt rs (map f rs) = map (\<lambda>r. (r, fmt (rate_time r), f r)) rs"
  by (induction rs) (simp_all add: make_frame_def)

lemma insert_update_count:
  "length (filter (\<lambda>r. is_insert (old r) \<or> is_update (old r) (c r)) rs)
     = length (filter (\<lambda>r. is_insert (old r)) rs) + length (filter (\<lambda>r. is_update (old r) (c r)) rs)"
  by (induction rs) (auto simp: is_insert_def is_update_def)

lemma update_database_None: "update_database fmt now tf None tbl = Inr (0, tbl)"
  by (simp add: update_database_def)

lemma update_database_Some:
  assumes "get_timeframe_seconds tf = Inr g"
  shows "update_database fmt now tf (Some rs) tbl =
           Inr (process_candles (existing_candles tbl)
                  (map (\<lambda>r. (r, fmt (rate_time r), fresh_flag now g (rate_time r))) rs) tbl 0)"
  by (cases "rs = []")
     (simp_all add: update_database_def completion_column_flags [OF assms] make_frame_map)

text \<open>
  The whole call, for a resolvable label: the count, the row under the key of every bar of
  the window, and the rows under all other keys.
\<close>

lemma reconcile_spec:
  assumes "get_timeframe_seconds tf = Inr g"
      and "unique_keys tbl"
      and "distinct (map (\<lambda>r. fmt (rate_time r)) rs)"
  shows "\<exists>tbl'. update_database fmt now tf (Some rs) tbl =
           Inr (length (filter (\<lambda>r. is_insert (lookup tbl (fmt (rate_time r)))) rs)
                + length (filter (\<lambda>r. is_update (lookup tbl (fmt (rate_time r)))
                                         (fresh_flag now g (rate_time r))) rs), tbl')
         \<and> (\<forall>r\<in>set rs. bar_outcome (lookup tbl (fmt (rate_time r)))
                           (lookup tbl' (fmt (rate_time r))) (fmt (rate_time r)) r
                           (fresh_flag now g (rate_time r)))
         \<and> (\<forall>k. k \<notin> set (map (\<lambda>r. fmt (rate_time r)) rs) \<longrightarrow> lookup tbl' k = lookup tbl k)
         \<and> unique_keys tbl'"
proof -
  define df where "df = map (\<lambda>r. (r, fmt (rate_time r), fresh_flag now g (rate_time r))) rs"
  define res where "res = process_candles (existing_candles tbl) df tbl 0"
  have keys: "map (\<lambda>(r, k, c). k) df = map (\<lambda>r. fmt (rate_time r)) rs"
    by (simp add: df_def comp_def)
  have d: "distinct (map (\<lambda>(r, k, c). k) df)"
    using assms(3) by (simp add: keys)
  have e: "\<forall>(r, k, c)\<in>set df. existing_candles tbl k = map_option row_is_completed (lookup tbl k)"
    using existing_candles_lookup [OF assms(2)] by simp
  note spec = process_candles_spec [OF assms(2) d e, of 0, folded res_def]
  have ud: "update_database fmt now tf (Some rs) tbl = Inr (fst res, snd res)"
    by (simp add: update_database_Some [OF assms(1)] res_def df_def)
  have cnt: "fst res = length (filter (\<lambda>r. is_insert (lookup tbl (fmt (rate_time r)))) rs)
                + length (filter (\<lambda>r. is_update (lookup tbl (fmt (rate_time r)))
                                         (fresh_flag now g (rate_time r))) rs)"
    using spec by (simp add: df_def filter_map comp_def insert_update_count)
  have out: "\<forall>r\<in>set rs. bar_outcome (lookup tbl (fmt (rate_time r)))
                           (lookup (snd res) (fmt (rate_time r))) (fmt (rate_time r)) r
                           (fresh_flag now g (rate_time r))"
  proof
    fix r assume "r \<in> set rs"
    then have "(r, fmt (rate_time r), fresh_flag now g (rate_time r)) \<in> set df"
      by (simp add: df_def)
    moreover from spec have "\<forall>(r, k, c)\<in>set df. bar_outcome (lookup tbl k) (lookup (snd res) k) k r c"
      by (elim conjE)
    ultimately show "bar_outcome (lookup tbl (fmt (rate_time r)))
                           (lookup (snd res) (fmt (rate_time r))) (fmt (rate_time r)) r
                           (fresh_flag now g (rate_time r))"
      by (auto simp only: split_conv dest!: bspec)
  qed
  have rest: "\<forall>k. k \<notin> set (map (\<lambda>r. fmt (rate_time r)) rs) \<longrightarrow> lookup (snd res) k = lookup tbl k"
    using spec unfolding keys by (elim conjE)
  have u: "unique_keys (snd res)" using spec by (elim conjE)
  show ?thesis using ud cnt out rest u by (intro exI [of _ "snd res"] conjI) simp_all
qed


lemma unique_keys_process_candles:
  "unique_keys tbl \<Longrightarrow> unique_keys (snd (process_candles existing df tbl n))"
proof (induction df arbitrary: tbl n)
  case Nil
  then show ?case by simp
next
  case (Cons x df)
  from unique_keys_process_row [OF Cons.prems, of existing x]
  show ?case by (auto simp: Cons.IH split: prod.splits)
qed

lemma process_row_frozen:
  assumes "existing k0 = Some (Some 1)" and "k = k0 \<longrightarrow> c = 1"
  shows "lookup (fst (process_row existing (r, k, c) tbl)) k0 = lookup tbl k0"
proof (cases "k = k0")
  case True
  then show ?thesis using assms by (simp add: process_row.simps)
next
  case False
  then show ?thesis by (simp add: lookup_process_row_other)
qed

lemma process_candles_frozen:
  assumes "existing k0 = Some (Some 1)"
      and "\<forall>(r, k, c)\<in>set df. k = k0 \<longrightarrow> c = 1"
  shows "lookup (snd (process_candles existing df tbl n)) k0 = lookup tbl k0"
  using assms(2)
proof (induction df arbitrary: tbl n)
  case Nil
  show ?case by simp
next
  case (Cons x df)
  obtain r k c where x: "x = (r, k, c)" by (cases x) auto
  have "k = k0 \<longrightarrow> c = 1" using Cons.prems x by simp
  then have "lookup (fst (process_row existing (r, k, c) tbl)) k0 = lookup tbl k0"
    using process_row_frozen [of existing k0 k c r tbl] assms(1) by simp
  moreover have "\<forall>(r, k, c)\<in>set df. k = k0 \<longrightarrow> c = 1" using Cons.prems by simp
  ultimately show ?case using Cons.IH by (auto simp: x split: prod.splits)
qed

lemma update_database_frozen:
  assumes "get_timeframe_seconds tf = Inr g"
      and "unique_keys tbl"
      and "lookup tbl k0 = Some row" and "row_is_completed row = Some 1"
      and "\<forall>r\<in>set (bars_of rates). fmt (rate_time r) = k0 \<longrightarrow> fresh_flag now g (rate_time r) = 1"
  shows "\<exists>n tbl'. update_database fmt now tf rates tbl = Inr (n, tbl')
           \<and> unique_keys tbl' \<and> lookup tbl' k0 = Some row"
proof (cases rates)
  case None
  then show ?thesis using assms(2,3) by (simp add: update_database_None)
next
  case (Some rs)
  define df where "df = map (\<lambda>r. (r, fmt (rate_time r), fresh_flag now g (rate_time r))) rs"
  define res where "res = process_candles (existing_candles tbl) df tbl 0"
  have run: "update_database fmt now tf rates tbl = Inr (fst res, snd res)"
    by (simp add: Some update_database_Some [OF assms(1)] res_def df_def)
  have e: "existing_candles tbl k0 = Some (Some 1)"
    using assms(2-4) by (simp add: existing_candles_lookup)
  have c: "\<forall>(r, k, c)\<in>set df. k = k0 \<longrightarrow> c = 1"
    using assms(5) by (auto simp: df_def Some bars_of_def)
  have "lookup (snd res) k0 = Some row"
    using process_candles_frozen [of "existing_candles tbl" k0 df tbl 0] e c assms(3)
    by (simp add: res_def)
  moreover have "unique_keys (snd res)"
    unfolding res_def using assms(2) by (rule unique_keys_process_candles)
  ultimately show ?thesis using run by blast
qed

lemma oracle_fresh_flag:
  "get_timeframe_seconds tf = Inr g \<Longrightarrow>
   is_candle_complete now t tf = Inr (fresh_flag now g t = 1)"
  by (simp add: is_candle_complete_def fresh_flag_def split: option.splits)

lemma fresh_flag_cases: "fresh_flag now g t = 0 \<or> fresh_flag now g t = 1"
  by (simp add: fresh_flag_def split: option.splits)

lemma fresh_flag_mono:
  "now1 \<le> now2 \<Longrightarrow> fresh_flag now1 g t = 1 \<Longrightarrow> fresh_flag now2 g t = 1"
  by (auto simp: fresh_flag_def split: option.splits if_splits)

lemma completed_new_row [simp]: "row_is_completed (new_row i k r c) = c"
  by (simp add: new_row_def)

lemma completed_write_fields [simp]: "row_is_completed (write_fields row r c) = Some c"
  by (simp add: write_fields_def)

lemma bar_outcome_flag:
  assumes "bar_outcome old new k r c"
  shows "\<exists>row. new = Some row \<and> row_is_completed row = Some c"
proof (cases old)
  case None
  with assms obtain row' where n: "new = Some row'"
    and r: "row' = new_row (row_id row') k r (Some c)"
    by (auto simp: bar_outcome_def split: option.splits)
  have "row_is_completed row' = Some c"
    by (subst r) simp
  with n show ?thesis by simp
next
  case (Some row)
  with assms show ?thesis
    by (auto simp: bar_outcome_def is_update_def split: if_splits)
qed

lemma keyed_Nil: "keyed fmt []"
  by (simp add: keyed_def unique_keys_def)

lemma keyed_distinct_times:
  assumes "keyed fmt tbl"
  shows "distinct (map row_time tbl)"
proof -
  have "map row_datetime tbl = map fmt (map row_time tbl)"
    using assms by (simp add: keyed_def list_all_iff)
  moreover have "distinct (map row_datetime tbl)"
    using assms by (simp add: keyed_def unique_keys_def)
  ultimately have "distinct (map fmt (map row_time tbl))"
    by (simp only:)
  then show ?thesis by (auto simp: distinct_map dest: inj_on_imageI2)
qed

lemma keyed_sql_update:
  "keyed fmt tbl \<Longrightarrow> keyed fmt (sql_update tbl (fmt (rate_time r)) r c)"
proof -
  assume k: "keyed fmt tbl"
  have "list_all (\<lambda>row. row_datetime row = fmt (row_time row)) (sql_update tbl (fmt (rate_time r)) r c)"
    using k by (auto simp: keyed_def list_all_iff sql_update_def write_fields_def)
  then show ?thesis using k by (simp add: keyed_def unique_keys_def)
qed

lemma keyed_sql_insert:
  "keyed fmt tbl \<Longrightarrow> sql_insert tbl (fmt (rate_time r)) r c = Inr tbl' \<Longrightarrow> keyed fmt tbl'"
  by (auto simp: keyed_def unique_keys_def sql_insert_def new_row_def split: if_splits)

lemma keyed_process_row:
  "keyed fmt tbl \<Longrightarrow> keyed fmt (fst (process_row existing (r, fmt (rate_time r), c) tbl))"
  by (auto simp: process_row.simps keyed_sql_update keyed_sql_insert split: option.splits sum.splits)

lemma keyed_process_candles:
  "keyed fmt tbl \<Longrightarrow>
   keyed fmt (snd (process_candles existing (map (\<lambda>r. (r, fmt (rate_time r), f r)) rs) tbl n))"
proof (induction rs arbitrary: tbl n)
  case Nil
  then show ?case by simp
next
  case (Cons r rs)
  from keyed_process_row [OF Cons.prems, of existing r "f r"]
  show ?case by (auto simp: Cons.IH split: prod.splits)
qed

lemma keyed_insert_row:
  "keyed fmt tbl \<Longrightarrow> keyed fmt (fst (insert_row ex dflt (r, fmt (rate_time r)) tbl))"
  by (auto simp: keyed_sql_insert split: sum.splits)

lemma keyed_insert_new_rows:
  "keyed fmt tbl \<Longrightarrow>
   keyed fmt (snd (insert_new_rows ex dflt (map (\<lambda>r. (r, fmt (rate_time r))) rs) tbl n))"
proof (induction rs arbitrary: tbl n)
  case Nil
  then show ?case by simp
next
  case (Cons r rs)
  from keyed_insert_row [OF Cons.prems, of ex dflt r]
  show ?case by (auto simp: Cons.IH simp del: insert_row.simps split: prod.splits)
qed

lemma zip_keys: "zip d (map (\<lambda>r. fmt (rate_time r)) d) = map (\<lambda>r. (r, fmt (rate_time r))) d"
  by (induction d) simp_all

lemma save_to_database_run:
  "save_to_database fmt dflt (Some d) tbl =
     (let res = insert_new_rows (set (map row_datetime tbl)) dflt
                  (map (\<lambda>r. (r, fmt (rate_time r))) (butlast d)) tbl 0
      in ((length (butlast d), fst res), snd res))"
  by (cases "d = []"; cases "butlast d = []")
     (simp_all add: save_to_database_def zip_keys map_butlast [symmetric] Let_def split: prod.splits)

lemma keyed_update_database:
  assumes "keyed fmt tbl" and "update_database fmt now tf rates tbl = Inr (n, tbl')"
  shows "keyed fmt tbl'"
proof (cases rates)
  case None
  then show ?thesis using assms by (simp add: update_database_None)
next
  case (Some rs)
  from assms(2) obtain g where g: "get_timeframe_seconds tf = Inr g \<or> rs = []"
    by (cases "get_timeframe_seconds tf"; cases rs)
       (auto simp: Some update_database_def is_candle_complete_def split: sum.splits)
  show ?thesis
  proof (cases "rs = []")
    case True
    then show ?thesis using assms by (simp add: Some update_database_def)
  next
    case False
    with g have "get_timeframe_seconds tf = Inr g" by simp
    from update_database_Some [OF this, of fmt now rs tbl] assms(2)
    have "tbl' = snd (process_candles (existing_candles tbl)
                  (map (\<lambda>r. (r, fmt (rate_time r), fresh_flag now g (rate_time r))) rs) tbl 0)"
      by (simp add: Some)
    then show ?thesis using keyed_process_candles [OF assms(1)] by simp
  qed
qed

lemma keyed_save_to_database:
  assumes "keyed fmt tbl"
  shows "keyed fmt (snd (save_to_database fmt dflt data tbl))"
proof (cases data)
  case None
  then show ?thesis using assms by (simp add: save_to_database_def)
next
  case (Some d)
  then show ?thesis
    using keyed_insert_new_rows [OF assms] by (simp add: save_to_database_run Let_def)
qed

lemma fifty_length: "length fifty_bars = 50"
  by (simp add: fifty_bars_def)

lemma insert_new_rows_spec:
  assumes "distinct (map (\<lambda>r. fmt (rate_time r)) bars)"
      and "\<forall>r\<in>set bars. fmt (rate_time r) \<notin> ex \<longrightarrow> fmt (rate_time r) \<notin> set (map row_datetime tbl)"
  shows "\<exists>ids. length ids = length (filter (\<lambda>r. fmt (rate_time r) \<notin> ex) bars)
           \<and> insert_new_rows ex dflt (map (\<lambda>r. (r, fmt (rate_time r))) bars) tbl n
               = (n + length (filter (\<lambda>r. fmt (rate_time r) \<notin> ex) bars),
                  tbl @ map2 (\<lambda>i r. new_row i (fmt (rate_time r)) r dflt) ids
                          (filter (\<lambda>r. fmt (rate_time r) \<notin> ex) bars))"
  using assms
proof (induction bars arbitrary: tbl n)
  case Nil
  show ?case by simp
next
  case (Cons r bars)
  let ?k = "fmt (rate_time r)"
  let ?news = "filter (\<lambda>r. fmt (rate_time r) \<notin> ex) bars"
  have d: "distinct (map (\<lambda>r. fmt (rate_time r)) bars)" using Cons.prems(1) by simp
  show ?case
  proof (cases "?k \<in> ex")
    case True
    have a: "\<forall>r\<in>set bars. fmt (rate_time r) \<notin> ex \<longrightarrow> fmt (rate_time r) \<notin> set (map row_datetime tbl)"
      using Cons.prems(2) by simp
    from Cons.IH [OF d a, of n] show ?thesis using True by simp
  next
    case False
    define tbl1 where "tbl1 = tbl @ [new_row (next_id tbl) ?k r dflt]"
    have notin: "?k \<notin> set (map row_datetime tbl)" using Cons.prems(2) False by simp
    have ins: "sql_insert tbl ?k r dflt = Inr tbl1"
      using notin by (simp add: sql_insert_def tbl1_def)
    have fresh: "?k \<notin> set (map (\<lambda>r. fmt (rate_time r)) bars)"
      using Cons.prems(1) by simp
    have a: "\<forall>r\<in>set bars. fmt (rate_time r) \<notin> ex \<longrightarrow> fmt (rate_time r) \<notin> set (map row_datetime tbl1)"
    proof (intro ballI impI)
      fix r' assume m: "r' \<in> set bars" and e: "fmt (rate_time r') \<notin> ex"
      then have "fmt (rate_time r') \<notin> set (map row_datetime tbl)" using Cons.prems(2) by simp
      moreover have "fmt (rate_time r') \<in> set (map (\<lambda>r. fmt (rate_time r)) bars)"
        using m by simp
      then have "fmt (rate_time r') \<noteq> ?k" using fresh by metis
      ultimately show "fmt (rate_time r') \<notin> set (map row_datetime tbl1)"
        by (simp add: tbl1_def)
    qed
    from Cons.IH [OF d a, of "n + 1"] obtain ids where
      l: "length ids = length ?news"
      and r: "insert_new_rows ex dflt (map (\<lambda>r. (r, fmt (rate_time r))) bars) tbl1 (n + 1)
               = (n + 1 + length ?news,
                  tbl1 @ map2 (\<lambda>i r. new_row i (fmt (rate_time r)) r dflt) ids ?news)"
      by blast
    show ?thesis
      using False ins l r
      by (intro exI [of _ "next_id tbl # ids"]) (simp add: tbl1_def)
  qed
qed

lemma save_to_database_spec:
  assumes "distinct (map (\<lambda>r. fmt (rate_time r)) d)"
  shows "\<exists>ids. length ids = length (absent_bars fmt tbl (butlast d))
           \<and> save_to_database fmt dflt (Some d) tbl
               = ((length (butlast d), length (absent_bars fmt tbl (butlast d))),
                  tbl @ map2 (\<lambda>i r. new_row i (fmt (rate_time r)) r dflt) ids
                          (absent_bars fmt tbl (butlast d)))"
proof -
  have d: "distinct (map (\<lambda>r. fmt (rate_time r)) (butlast d))"
    using assms by (metis distinct_butlast map_butlast)
  from insert_new_rows_spec [OF d, of "set (map row_datetime tbl)" tbl dflt 0]
  show ?thesis by (auto simp: save_to_database_run absent_bars_def Let_def)
qed

text \<open>The keys of the fifty one-minute bars are distinct.\<close>

lemma civil0: "civil_from_days 0 = (1970, 1, 1)"
  by code_simp
lemma minute_str:
  assumes "0 \<le> i" "i < 60"
  shows "datetime_str (60 * i) =
     (pad4 1970 @ ''-'' @ pad2 1 @ ''-'' @ pad2 1 @ '' '' @ pad2 0 @ '':'') @ pad2 i @ ('':'' @ pad2 0)"
proof -
  have a: "60 * i div 86400 = 0" "60 * i mod 86400 = 60 * i"
    using assms by simp_all
  have b: "60 * i div 3600 = 0" "60 * i div 60 mod 60 = i" "60 * i mod 60 = 0"
    using assms by simp_all
  show ?thesis
    unfolding datetime_str_def a civil0 Let_def prod.case b by simp
qed
lemma digit_char_inj:
  assumes "0 \<le> a" "a < 10" "0 \<le> b" "b < 10" "digit_char a = digit_char b"
  shows "a = b"
proof -
  have "(of_char (digit_char a) :: nat) = of_char (digit_char b)" using assms(5) by simp
  then have "(48 + nat a) mod 256 = (48 + nat b) mod 256"
    by (simp add: digit_char_def)
  then show ?thesis using assms(1-4) by simp
qed

lemma pad2_inj:
  assumes "0 \<le> i" "i < 100" "0 \<le> j" "j < 100" "pad2 i = pad2 j"
  shows "i = j"
proof -
  have "digit_char (i div 10 mod 10) = digit_char (j div 10 mod 10)"
    and "digit_char (i mod 10) = digit_char (j mod 10)"
    using assms(5) by (simp_all add: pad2_def)
  then have "i div 10 mod 10 = j div 10 mod 10" and m: "i mod 10 = j mod 10"
    by (auto intro!: digit_char_inj)
  moreover have "i div 10 mod 10 = i div 10" and "j div 10 mod 10 = j div 10"
    using assms(1-4) by simp_all
  ultimately have "10 * (i div 10) + i mod 10 = 10 * (j div 10) + j mod 10"
    by simp
  then show ?thesis by (simp only: mult_div_mod_eq)
qed

lemma fifty_distinct: "distinct (map (\<lambda>r. datetime_str (rate_time r)) fifty_bars)"
proof -
  have "inj_on (\<lambda>i. datetime_str (60 * int i)) (set [0..<50])"
  proof (rule inj_onI)
    fix x y :: nat
    assume "x \<in> set [0..<50]" "y \<in> set [0..<50]"
      and e: "datetime_str (60 * int x) = datetime_str (60 * int y)"
    then have b: "0 \<le> int x" "int x < 60" "0 \<le> int y" "int y < 60" by simp_all
    from e have "pad2 (int x) = pad2 (int y)"
      by (simp add: minute_str [OF b(1,2)] minute_str [OF b(3,4)])
    then have "int x = int y" using b by (intro pad2_inj) simp_all
    then show "x = y" by simp
  qed
  then have "distinct (map (\<lambda>i. datetime_str (60 * int i)) [0..<50])"
    by (simp add: distinct_map)
  then show ?thesis by (simp add: fifty_bars_def bar_def comp_def)
qed

lemma keys_new_rows:
  "length ids = length bars \<Longrightarrow>
   map row_datetime (map2 (\<lambda>i r. new_row i (fmt (rate_time r)) r dflt) ids bars)
     = map (\<lambda>r. fmt (rate_time r)) bars"
  by (induction ids bars rule: list_induct2) simp_all

lemma flags_new_rows:
  "list_all (\<lambda>row. row_is_completed row = dflt)
     (map2 (\<lambda>i r. new_row i (fmt (rate_time r)) r dflt) ids bars)"
  by (induction ids arbitrary: bars) (auto simp: list_all_iff dest!: set_zip_rightD in_set_zipE)

lemma absent_bars_Nil: "absent_bars fmt [] bars = bars"
  by (simp add: absent_bars_def)

lemma last_key_fresh:
  assumes "distinct (map (\<lambda>r. fmt (rate_time r)) d)" and "d \<noteq> []"
  shows "fmt (rate_time (last d)) \<notin> set (map (\<lambda>r. fmt (rate_time r)) (butlast d))"
proof -
  have "map (\<lambda>r. fmt (rate_time r)) d
          = map (\<lambda>r. fmt (rate_time r)) (butlast d) @ [fmt (rate_time (last d))]"
    using assms(2) by (metis (no_types, lifting) append_butlast_last_id list.simps(8,9) map_append)
  then show ?thesis using assms(1) by (metis distinct_append distinct.simps(2) disjoint_iff list.set_intros(1) not_distinct_conv_prefix)
qed

section \<open>Properties of the query of the read API\<close>

lemma ohlc_query_times:
  assumes "distinct (map row_time tbl)"
  shows "sorted_wrt (>) (map row_time (ohlc_query s e limit co tbl))"
proof -
  let ?m = "filter (ohlc_where s e co) tbl"
  let ?S = "sort_key row_time ?m"
  have dm: "distinct (map row_time ?m)" using assms by (rule distinct_map_filter)
  then have "distinct ?m" and "inj_on row_time (set ?m)" by (simp_all add: distinct_map)
  then have "distinct (map row_time ?S)" by (simp add: distinct_map)
  moreover have "sorted (map row_time ?S)" by (rule sorted_sort_key)
  ultimately have "sorted_wrt (<) (map row_time ?S)" by (simp add: strict_sorted_iff)
  then have r: "sorted_wrt (>) (map row_time (rev ?S))"
    by (simp only: rev_map [symmetric] sorted_wrt_rev)
  show ?thesis
  proof (cases "limit < 0")
    case True
    then show ?thesis using r by (simp add: ohlc_query_def)
  next
    case False
    then show ?thesis using sorted_wrt_take [OF r, of "nat limit"]
      by (simp add: ohlc_query_def take_map)
  qed
qed

lemma ohlc_query_subset: "set (ohlc_query s e limit co tbl) \<subseteq> set tbl"
  by (auto simp: ohlc_query_def Let_def dest: in_set_takeD split: if_splits)

lemma get_ohlc_data_refused:
  "limit > 100000 \<Longrightarrow> get_ohlc_data symbol tf s e limit co db = Inl Http422"
  by (simp add: get_ohlc_data_def)

lemma get_ohlc_data_db_error:
  "limit \<le> 100000 \<Longrightarrow> get_ohlc_data symbol tf s e limit co (Inl err) = Inl Http500"
  by (simp add: get_ohlc_data_def)

lemma get_ohlc_data_missing:
  "limit \<le> 100000 \<Longrightarrow> get_ohlc_data symbol tf s e limit co (Inr None) = Inl Http404"
  by (simp add: get_ohlc_data_def)

lemma get_ohlc_data_empty:
  "limit \<le> 100000 \<Longrightarrow> ohlc_query s e limit co tbl = [] \<Longrightarrow>
   get_ohlc_data symbol tf s e limit co (Inr (Some tbl)) = Inl Http404"
  by (simp add: get_ohlc_data_def)

section \<open>Properties of the reconciler\<close>

text \<open>Evaluations of the three-cycle scenario.\<close>

lemma dt100: "datetime_str 100 = ''1970-01-01 00:01:40''"
  by code_simp

lemma dt160: "datetime_str 160 = ''1970-01-01 00:02:40''"
  by code_simp

lemma dt220: "datetime_str 220 = ''1970-01-01 00:03:40''"
  by code_simp

lemmas scenario_defs = window1_def window2_def table_after_cycle1_def table_after_cycle2_def
  stored_def bar_def new_row_def dt100 dt160 dt220

lemmas store_defs = process_row.simps existing_candles_def fresh_flag_def sql_update_def
  sql_insert_def write_fields_def next_id_def or_zero_def

lemma cycle1_run:
  "update_database datetime_str 165 ''M1'' (Some window1) [] = Inr (2, table_after_cycle1)"
  by (simp add: update_database_Some [OF secs_M1] scenario_defs store_defs)

lemma cycle2_run:
  "update_database datetime_str 225 ''M1'' (Some window2) table_after_cycle1
     = Inr (2, table_after_cycle2)"
  by (simp add: update_database_Some [OF secs_M1] scenario_defs store_defs)

lemma cycle2_facts:
  "unique_keys table_after_cycle1"
  "distinct (map (\<lambda>r. datetime_str (rate_time r)) window2)"
  "datetime_str 100 \<notin> set (map (\<lambda>r. datetime_str (rate_time r)) window2)"
  by (simp_all add: unique_keys_def scenario_defs)



lemma cycle3_run:
  "update_database datetime_str 226 ''M1'' (Some window2) table_after_cycle2
     = Inr (1, table_after_cycle2)"
  by (simp add: update_database_Some [OF secs_M1] scenario_defs store_defs)

text \<open>
  C2, as the code has it. Reconciling the same window a second time, at a reference time
  that is not earlier, returns; the second count is the number of bars of the window that
  were incomplete at the first reference time, because a row whose persisted flag is false
  is overwritten at every call. The second count is zero exactly when every bar of the
  window was complete at the first call.
\<close>

theorem second_reconcile_rewrites_incomplete:
  assumes "get_timeframe_seconds tf = Inr g"
      and "unique_keys tbl"
      and "distinct (map (\<lambda>r. fmt (rate_time r)) rs)"
      and "now1 \<le> now2"
  shows "\<exists>n1 tbl1 n2 tbl2.
           update_database fmt now1 tf (Some rs) tbl = Inr (n1, tbl1)
         \<and> update_database fmt now2 tf (Some rs) tbl1 = Inr (n2, tbl2)
         \<and> n2 = length (filter (\<lambda>r. is_candle_complete now1 (rate_time r) tf = Inr False) rs)
         \<and> (n2 = 0) = list_all (\<lambda>r. is_candle_complete now1 (rate_time r) tf = Inr True) rs"
proof -
  from reconcile_spec [OF assms(1-3), of now1]
  obtain n1 tbl1 where
    run1: "update_database fmt now1 tf (Some rs) tbl = Inr (n1, tbl1)"
    and out1: "\<forall>r\<in>set rs. bar_outcome (lookup tbl (fmt (rate_time r)))
                 (lookup tbl1 (fmt (rate_time r))) (fmt (rate_time r)) r
                 (fresh_flag now1 g (rate_time r))"
    and u1: "unique_keys tbl1"
    by blast
  from reconcile_spec [OF assms(1) u1 assms(3), of now2]
  obtain tbl2 where
    run2: "update_database fmt now2 tf (Some rs) tbl1 =
           Inr (length (filter (\<lambda>r. is_insert (lookup tbl1 (fmt (rate_time r)))) rs)
                + length (filter (\<lambda>r. is_update (lookup tbl1 (fmt (rate_time r)))
                                         (fresh_flag now2 g (rate_time r))) rs), tbl2)"
    by blast
  have stored: "\<exists>row. lookup tbl1 (fmt (rate_time r)) = Some row
                  \<and> row_is_completed row = Some (fresh_flag now1 g (rate_time r))"
    if "r \<in> set rs" for r
    using out1 that by (blast dest: bar_outcome_flag)
  have ins: "filter (\<lambda>r. is_insert (lookup tbl1 (fmt (rate_time r)))) rs = []"
    using stored by (auto simp: is_insert_def filter_empty_conv)
  have upd: "is_update (lookup tbl1 (fmt (rate_time r))) (fresh_flag now2 g (rate_time r))
               = (is_candle_complete now1 (rate_time r) tf = Inr False)"
    if "r \<in> set rs" for r
  proof -
    from stored [OF that] obtain row where
      "lookup tbl1 (fmt (rate_time r)) = Some row"
      "row_is_completed row = Some (fresh_flag now1 g (rate_time r))" by blast
    then show ?thesis
      using fresh_flag_cases [of now1 g "rate_time r"]
            fresh_flag_mono [OF assms(4), of g "rate_time r"]
      by (auto simp: is_update_def oracle_fresh_flag [OF assms(1)])
  qed
  have f: "filter (\<lambda>r. is_update (lookup tbl1 (fmt (rate_time r))) (fresh_flag now2 g (rate_time r))) rs
         = filter (\<lambda>r. is_candle_complete now1 (rate_time r) tf = Inr False) rs"
    by (rule filter_cong) (simp_all add: upd)
  have z: "(length (filter (\<lambda>r. is_candle_complete now1 (rate_time r) tf = Inr False) rs) = 0)
         = list_all (\<lambda>r. is_candle_complete now1 (rate_time r) tf = Inr True) rs"
    by (auto simp: filter_empty_conv list_all_iff oracle_fresh_flag [OF assms(1)])
  show ?thesis
    using run1 run2 z by (simp add: ins f)
qed

theorem second_reconcile_rewrites_incomplete_witness:
  "get_timeframe_seconds ''M1'' = Inr (Some 60)
   \<and> unique_keys table_after_cycle1
   \<and> distinct (map (\<lambda>r. datetime_str (rate_time r)) window2)
   \<and> update_database datetime_str 225 ''M1'' (Some window2) table_after_cycle1
        = Inr (2, table_after_cycle2)
   \<and> length (filter (\<lambda>r. is_candle_complete 225 (rate_time r) ''M1'' = Inr False) window2) = 1
   \<and> map_sum id fst (update_database datetime_str 226 ''M1'' (Some window2) table_after_cycle2)
        = Inr 1"
proof -
  have le: "(225::int) \<le> 226" by simp
  have c: "length (filter (\<lambda>r. is_candle_complete 225 (rate_time r) ''M1'' = Inr False) window2) = 1"
    by (simp add: oracle_fresh_flag [OF secs_M1] fresh_flag_def window2_def bar_def)
  from second_reconcile_rewrites_incomplete [OF secs_M1 cycle2_facts(1) cycle2_facts(2) le]
  obtain n1 tbl1 n2 tbl2 where
    "update_database datetime_str 225 ''M1'' (Some window2) table_after_cycle1 = Inr (n1, tbl1)"
    "update_database datetime_str 226 ''M1'' (Some window2) tbl1 = Inr (n2, tbl2)"
    "n2 = length (filter (\<lambda>r. is_candle_complete 225 (rate_time r) ''M1'' = Inr False) window2)"
    by blast
  then have "map_sum id fst (update_database datetime_str 226 ''M1'' (Some window2) table_after_cycle2)
        = Inr 1"
    using c by (simp add: cycle2_run)
  then show ?thesis
    using secs_M1 cycle2_facts(1,2) cycle2_run c by simp
qed

text \<open>
  C2, as stated, fails in the third cycle of the scenario: after the second cycle (reference
  time 225) the identical window at reference time 226 gives a count of 1, for the bar
  opened at 220, which is still incomplete.
\<close>

theorem third_cycle_counts_one:
  "update_database datetime_str 225 ''M1'' (Some window2) table_after_cycle1
     = Inr (2, table_after_cycle2)
   \<and> update_database datetime_str 226 ''M1'' (Some window2) table_after_cycle2
     = Inr (1, table_after_cycle2)"
  by (simp add: cycle2_run cycle3_run)

text \<open>
  C7. A row stored under the key of open time \<open>t0\<close> whose flag is true, the oracle being
  true for \<open>t0\<close> at some reference time \<open>now0\<close>, is never written again by later cycles
  for the same label whose reference times do not decrease from \<open>now0\<close>, whatever the
  windows hold under that open time: every cycle returns, the row stays as it was and its
  flag stays true. Bars of the windows that share the key are bars of the same open time.
\<close>

theorem completion_monotone:
  assumes "get_timeframe_seconds tf = Inr g"
      and "unique_keys tbl"
      and "lookup tbl (fmt t0) = Some row" and "row_is_completed row = Some 1"
      and "is_candle_complete now0 t0 tf = Inr True"
      and "sorted (now0 # map fst cycles)"
      and "\<forall>(now, rates)\<in>set cycles. \<forall>r\<in>set (bars_of rates).
             fmt (rate_time r) = fmt t0 \<longrightarrow> rate_time r = t0"
  shows "\<exists>tbl'. run_cycles fmt tf cycles tbl = Inr tbl'
           \<and> lookup tbl' (fmt t0) = Some row
           \<and> map_option row_is_completed (lookup tbl' (fmt t0)) = Some (Some 1)"
proof -
  have f0: "fresh_flag now0 g t0 = 1"
    using assms(5) by (simp add: oracle_fresh_flag [OF assms(1)])
  have "\<exists>tbl'. run_cycles fmt tf cycles tbl = Inr tbl' \<and> lookup tbl' (fmt t0) = Some row"
    using assms(2,3,6,7)
  proof (induction cycles arbitrary: tbl)
    case Nil
    then show ?case by simp
  next
    case (Cons cy cycles)
    obtain now rates where cy: "cy = (now, rates)" by (cases cy) auto
    have le: "now0 \<le> now" using Cons.prems(3) cy by simp
    have fl: "\<forall>r\<in>set (bars_of rates). fmt (rate_time r) = fmt t0
                 \<longrightarrow> fresh_flag now g (rate_time r) = 1"
      using Cons.prems(4) cy fresh_flag_mono [OF le f0] by auto
    from update_database_frozen [OF assms(1) Cons.prems(1) Cons.prems(2) assms(4) fl]
    obtain n tbl1 where run: "update_database fmt now tf rates tbl = Inr (n, tbl1)"
      and u1: "unique_keys tbl1" and l1: "lookup tbl1 (fmt t0) = Some row" by blast
    have s: "sorted (now0 # map fst cycles)" using Cons.prems(3) by auto
    have inj: "\<forall>(now, rates)\<in>set cycles. \<forall>r\<in>set (bars_of rates).
             fmt (rate_time r) = fmt t0 \<longrightarrow> rate_time r = t0"
      using Cons.prems(4) by simp
    from Cons.IH [OF u1 l1 s inj] show ?case by (simp add: cy run)
  qed
  then show ?thesis using assms(4) by auto
qed


theorem completion_monotone_witness:
  "get_timeframe_seconds ''M1'' = Inr (Some 60)
   \<and> unique_keys table_after_cycle2
   \<and> lookup table_after_cycle2 (datetime_str 160) = Some (stored 2 160 (125 / 100) 1)
   \<and> is_candle_complete 225 160 ''M1'' = Inr True
   \<and> sorted [225, 226, 300, 301 :: int]
   \<and> map_sum id (\<lambda>tbl'. lookup tbl' (datetime_str 160))
         (run_cycles datetime_str ''M1''
            [(226, Some window2), (300, Some [bar 160 9, bar 220 (13 / 10)]), (301, None)]
            table_after_cycle2)
       = Inr (Some (stored 2 160 (125 / 100) 1))"
proof -
  let ?cycles = "[(226, Some window2), (300, Some [bar 160 9, bar 220 (13 / 10)]), (301, None)]
                   :: (int \<times> rat rate list option) list"
  have u: "unique_keys table_after_cycle2"
    by (simp add: unique_keys_def scenario_defs)
  have l: "lookup table_after_cycle2 (datetime_str 160) = Some (stored 2 160 (125 / 100) 1)"
    by (simp add: scenario_defs)
  have f: "row_is_completed (stored 2 160 (125 / 100) 1) = Some 1"
    by (simp add: stored_def)
  have o: "is_candle_complete 225 160 ''M1'' = Inr True"
    by (simp add: oracle_fresh_flag [OF secs_M1] fresh_flag_def)
  have s: "sorted (225 # map fst ?cycles)" by simp
  have i: "\<forall>(now, rates)\<in>set ?cycles. \<forall>r\<in>set (bars_of rates).
             datetime_str (rate_time r) = datetime_str 160 \<longrightarrow> rate_time r = 160"
    by (simp add: bars_of_def scenario_defs)
  from completion_monotone [OF secs_M1 u l f o s i]
  obtain tbl' where "run_cycles datetime_str ''M1'' ?cycles table_after_cycle2 = Inr tbl'"
    and "lookup tbl' (datetime_str 160) = Some (stored 2 160 (125 / 100) 1)" by blast
  then show ?thesis using secs_M1 u l o by simp
qed

text \<open>
  C8. Every row being stored under the rendering of its time and no two rows sharing a key
  is an invariant: it holds of the empty table, every reconciliation that returns and every
  bulk load preserve it, and under it no two stored rows have the same open time.
\<close>

theorem key_uniqueness_preserved:
  assumes "keyed fmt tbl"
  shows "keyed fmt []
       \<and> distinct (map row_time tbl)
       \<and> (\<forall>n tbl'. update_database fmt now tf rates tbl = Inr (n, tbl')
             \<longrightarrow> keyed fmt tbl' \<and> distinct (map row_time tbl'))
       \<and> keyed fmt (snd (save_to_database fmt dflt data tbl))
       \<and> distinct (map row_time (snd (save_to_database fmt dflt data tbl)))"
  using assms keyed_Nil keyed_distinct_times keyed_update_database keyed_save_to_database
  by blast

theorem key_uniqueness_preserved_witness:
  "keyed datetime_str table_after_cycle1
   \<and> update_database datetime_str 225 ''M1'' (Some window2) table_after_cycle1
        = Inr (2, table_after_cycle2)
   \<and> keyed datetime_str table_after_cycle2
   \<and> distinct (map row_time table_after_cycle2)
   \<and> distinct (map row_time
         (snd (save_to_database datetime_str (Some 1) (Some window2) table_after_cycle1)))"
proof -
  have k: "keyed datetime_str table_after_cycle1"
    by (simp add: keyed_def unique_keys_def scenario_defs)
  from key_uniqueness_preserved [OF k, of 225 "''M1''" "Some window2" "Some 1" "Some window2"]
  have "keyed datetime_str table_after_cycle2 \<and> distinct (map row_time table_after_cycle2)"
    and "distinct (map row_time
         (snd (save_to_database datetime_str (Some 1) (Some window2) table_after_cycle1)))"
    by (simp_all only: cycle2_run) blast+
  then show ?thesis using k cycle2_run by (intro conjI) blast+
qed

section \<open>Properties of the bulk load\<close>

text \<open>
  C9. For a fetch of \<open>N \<ge> 1\<close> bars with distinct keys, the bulk load works on all bars
  but the last: it reports \<open>N - 1\<close> rows and appends, after the rows already stored, one row
  for each of those bars whose key is absent from the table, and nothing else. Into an empty
  table it inserts exactly \<open>N - 1\<close> rows, those of the first \<open>N - 1\<close> bars in order; the key
  of the last bar is not stored. The INSERT supplies no \<open>is_completed\<close>: every new row
  holds the default \<open>dflt\<close> of the schema for it.
\<close>

theorem save_to_database_drops_last:
  assumes "distinct (map (\<lambda>r. fmt (rate_time r)) d)" and "d \<noteq> []"
  shows "(\<exists>ids. length ids = length (absent_bars fmt tbl (butlast d))
            \<and> save_to_database fmt dflt (Some d) tbl
                = ((length d - 1, length (absent_bars fmt tbl (butlast d))),
                   tbl @ map2 (\<lambda>i r. new_row i (fmt (rate_time r)) r dflt) ids
                           (absent_bars fmt tbl (butlast d))))
       \<and> fst (save_to_database fmt dflt (Some d) []) = (length d - 1, length d - 1)
       \<and> length (snd (save_to_database fmt dflt (Some d) [])) = length d - 1
       \<and> map row_datetime (snd (save_to_database fmt dflt (Some d) []))
           = map (\<lambda>r. fmt (rate_time r)) (butlast d)
       \<and> fmt (rate_time (last d)) \<notin> set (map row_datetime (snd (save_to_database fmt dflt (Some d) [])))
       \<and> list_all (\<lambda>row. row_is_completed row = dflt) (snd (save_to_database fmt dflt (Some d) []))"
proof -
  from save_to_database_spec [OF assms(1), of tbl dflt]
  have g: "\<exists>ids. length ids = length (absent_bars fmt tbl (butlast d))
            \<and> save_to_database fmt dflt (Some d) tbl
                = ((length d - 1, length (absent_bars fmt tbl (butlast d))),
                   tbl @ map2 (\<lambda>i r. new_row i (fmt (rate_time r)) r dflt) ids
                           (absent_bars fmt tbl (butlast d)))"
    by simp
  from save_to_database_spec [OF assms(1), of "[]" dflt]
  obtain ids where l: "length ids = length (butlast d)"
    and e: "save_to_database fmt dflt (Some d) []
              = ((length (butlast d), length (butlast d)),
                 map2 (\<lambda>i r. new_row i (fmt (rate_time r)) r dflt) ids (butlast d))"
    by (auto simp: absent_bars_Nil)
  have k: "map row_datetime (snd (save_to_database fmt dflt (Some d) []))
           = map (\<lambda>r. fmt (rate_time r)) (butlast d)"
    by (simp only: e snd_conv keys_new_rows [OF l])
  have n: "length (snd (save_to_database fmt dflt (Some d) [])) = length d - 1"
    using l by (simp add: e)
  have f: "fmt (rate_time (last d)) \<notin> set (map row_datetime (snd (save_to_database fmt dflt (Some d) [])))"
    unfolding k using assms by (rule last_key_fresh)
  have c: "list_all (\<lambda>row. row_is_completed row = dflt) (snd (save_to_database fmt dflt (Some d) []))"
    by (simp only: e snd_conv flags_new_rows)
  show ?thesis using g k n f c by (simp add: e)
qed


theorem save_to_database_drops_last_witness:
  "distinct (map (\<lambda>r. datetime_str (rate_time r)) fifty_bars)
   \<and> length fifty_bars = 50
   \<and> fst (save_to_database datetime_str None (Some fifty_bars) []) = (49, 49)
   \<and> length (snd (save_to_database datetime_str None (Some fifty_bars) [])) = 49"
proof -
  have ne: "fifty_bars \<noteq> []" using fifty_length by auto
  from save_to_database_drops_last [OF fifty_distinct ne, of "[]" None]
  show ?thesis using fifty_distinct by (simp add: fifty_length)
qed

section \<open>Properties of the read API\<close>

text \<open>
  C10. Over a table whose stored times are pairwise distinct (the invariant of the writers),
  a request with an admitted limit and a non-empty query result is answered. The query
  delivers the rows in strictly descending order of time; each of the six lists is the
  column of those rows taken in the reverse, hence chronological, order, so the lists have
  the same length and their entries at one position come from one row; \<open>t\<close> holds the stored
  times multiplied by 1000 and is strictly ascending.
\<close>

theorem ohlc_arrays_ascending:
  assumes "distinct (map row_time tbl)"
      and "limit \<le> 100000"
      and "ohlc_query start_time end_time limit completed_only tbl \<noteq> []"
  shows "\<exists>res. get_ohlc_data symbol timeframe start_time end_time limit completed_only
                 (Inr (Some tbl)) = Inr res
           \<and> ohlc_t res = map (\<lambda>row. row_time row * 1000)
                             (rev (ohlc_query start_time end_time limit completed_only tbl))
           \<and> ohlc_o res = map row_open
                             (rev (ohlc_query start_time end_time limit completed_only tbl))
           \<and> ohlc_h res = map row_high
                             (rev (ohlc_query start_time end_time limit completed_only tbl))
           \<and> ohlc_l res = map row_low
                             (rev (ohlc_query start_time end_time limit completed_only tbl))
           \<and> ohlc_c res = map row_close
                             (rev (ohlc_query start_time end_time limit completed_only tbl))
           \<and> ohlc_v res = map row_tick_volume
                             (rev (ohlc_query start_time end_time limit completed_only tbl))
           \<and> length (ohlc_o res) = length (ohlc_t res)
           \<and> length (ohlc_h res) = length (ohlc_t res)
           \<and> length (ohlc_l res) = length (ohlc_t res)
           \<and> length (ohlc_c res) = length (ohlc_t res)
           \<and> length (ohlc_v res) = length (ohlc_t res)
           \<and> sorted_wrt (<) (ohlc_t res)
           \<and> sorted_wrt (<) (map row_time
                                 (rev (ohlc_query start_time end_time limit completed_only tbl)))
           \<and> set (ohlc_query start_time end_time limit completed_only tbl) \<subseteq> set tbl
           \<and> sorted_wrt (>) (map row_time (ohlc_query start_time end_time limit completed_only tbl))"
proof -
  let ?rows = "ohlc_query start_time end_time limit completed_only tbl"
  have d: "sorted_wrt (>) (map row_time ?rows)"
    using assms(1) by (rule ohlc_query_times)
  then have a: "sorted_wrt (<) (map row_time (rev ?rows))"
    by (simp only: rev_map [symmetric] sorted_wrt_rev)
  then have "sorted_wrt (<) (map (\<lambda>row. row_time row * 1000) (rev ?rows))"
    by (simp add: sorted_wrt_map)
  then show ?thesis
    using assms(2,3) d a ohlc_query_subset [of start_time end_time limit completed_only tbl]
    by (simp add: get_ohlc_data_def rev_map Let_def)
qed

theorem ohlc_arrays_ascending_witness:
  "distinct (map row_time table_after_cycle2)
   \<and> map row_time (ohlc_query None None 100 False table_after_cycle2) = [220, 160, 100]
   \<and> get_ohlc_data ''EURUSD'' ''M1'' None None 100 False (Inr (Some table_after_cycle2))
       = Inr \<lparr> ohlc_symbol = ''EURUSD'', ohlc_timeframe = ''M1'',
                ohlc_t = [100000, 160000, 220000],
                ohlc_o = [11 / 10, 125 / 100, 13 / 10],
                ohlc_h = [11 / 10, 125 / 100, 13 / 10],
                ohlc_l = [11 / 10, 125 / 100, 13 / 10],
                ohlc_c = [11 / 10, 125 / 100, 13 / 10],
                ohlc_v = [1, 1, 1] \<rparr>"
proof -
  have d: "distinct (map row_time table_after_cycle2)"
    by (simp add: scenario_defs)
  have q: "ohlc_query None None 100 False table_after_cycle2
             = [stored 3 220 (13 / 10) 0, stored 2 160 (125 / 100) 1, stored 1 100 (11 / 10) 1]"
    by (simp add: ohlc_query_def ohlc_where_def table_after_cycle2_def stored_def new_row_def bar_def)
  have t: "map row_time (ohlc_query None None 100 False table_after_cycle2) = [220, 160, 100]"
    by (simp add: q stored_def new_row_def bar_def)
  have ne: "ohlc_query None None 100 False table_after_cycle2 \<noteq> []" by (simp add: q)
  have le: "(100::int) \<le> 100000" by simp
  from ohlc_arrays_ascending [OF d le ne, of "''EURUSD''" "''M1''"]
  obtain res where r: "get_ohlc_data ''EURUSD'' ''M1'' None None 100 False
                         (Inr (Some table_after_cycle2)) = Inr res"
    and "ohlc_t res = map (\<lambda>row. row_time row * 1000)
                        (rev (ohlc_query None None 100 False table_after_cycle2))"
    and "ohlc_o res = map row_open (rev (ohlc_query None None 100 False table_after_cycle2))"
    and "ohlc_h res = map row_high (rev (ohlc_query None None 100 False table_after_cycle2))"
    and "ohlc_l res = map row_low (rev (ohlc_query None None 100 False table_after_cycle2))"
    and "ohlc_c res = map row_close (rev (ohlc_query None None 100 False table_after_cycle2))"
    and "ohlc_v res = map row_tick_volume
                        (rev (ohlc_query None None 100 False table_after_cycle2))"
    by blast
  then have "ohlc_t res = [100000, 160000, 220000]"
    and "ohlc_o res = [11 / 10, 125 / 100, 13 / 10]"
    and "ohlc_h res = [11 / 10, 125 / 100, 13 / 10]"
    and "ohlc_l res = [11 / 10, 125 / 100, 13 / 10]"
    and "ohlc_c res = [11 / 10, 125 / 100, 13 / 10]"
    and "ohlc_v res = [1, 1, 1]"
    by (simp_all add: q stored_def new_row_def bar_def)
  moreover have "ohlc_symbol res = ''EURUSD''" and "ohlc_timeframe res = ''M1''"
    using r by (auto simp: get_ohlc_data_def Let_def split: if_splits)
  ultimately have "res = \<lparr> ohlc_symbol = ''EURUSD'', ohlc_timeframe = ''M1'',
                ohlc_t = [100000, 160000, 220000],
                ohlc_o = [11 / 10, 125 / 100, 13 / 10],
                ohlc_h = [11 / 10, 125 / 100, 13 / 10],
                ohlc_l = [11 / 10, 125 / 100, 13 / 10],
                ohlc_c = [11 / 10, 125 / 100, 13 / 10],
                ohlc_v = [1, 1, 1] \<rparr>"
    by (cases res) simp
  then show ?thesis using d t r by simp
qed

end
